theory Spec2Isabelle
  imports Main
begin

section \<open>Incremental synchronisation engine (fastgpt\_sync.py)\<close>

text \<open>
  A shallow embedding of \<^verbatim>\<open>FastGPTSyncer\<close>. Python strings are \<open>string\<close>; a
  character stands for a code point below 256, where the only decimal digits
  (\<^verbatim>\<open>\d\<close>) are \<open>0\<close> to \<open>9\<close>. Dictionaries are association lists read with
  \<open>map_of\<close>, because \<^verbatim>\<open>sync_once\<close> iterates the state in insertion order. The remote
  service, the clock, the digest and the JSON encoder are parameters of the model.
  File-system calls are taken to succeed; the run is taken not to cross midnight.
\<close>

subsection \<open>Strings\<close>

definition is_digit :: "char \<Rightarrow> bool" where
  "is_digit c = (c \<in> set ''0123456789'')"

text \<open>\<^verbatim>\<open>sub in s\<close> and \<^verbatim>\<open>s.startswith(p)\<close>.\<close>

definition startswith :: "string \<Rightarrow> string \<Rightarrow> bool" where
  "startswith p s = (take (length p) s = p)"

fun contains :: "string \<Rightarrow> string \<Rightarrow> bool" where
  "contains sub [] = (sub = [])"
| "contains sub (c # cs) = (startswith sub (c # cs) \<or> contains sub cs)"

subsection \<open>Identity resolver: \<^verbatim>\<open>_get_file_identity\<close>\<close>

text \<open>
  \<^verbatim>\<open>re.search(r'NCT\d{8}', filename)\<close>: the leftmost position where the pattern
  matches; the match is the 11 characters from there.
\<close>

definition nct_here :: "string \<Rightarrow> bool" where
  "nct_here s = (take 3 s = ''NCT'' \<and> 11 \<le> length s \<and> list_all is_digit (take 8 (drop 3 s)))"

fun re_search_nct :: "string \<Rightarrow> string option" where
  "re_search_nct [] = None"
| "re_search_nct (c # cs) =
     (if nct_here (c # cs) then Some (take 11 (c # cs)) else re_search_nct cs)"

definition get_file_identity :: "string \<Rightarrow> string" where
  "get_file_identity filename =
     (case re_search_nct filename of Some nct_match \<Rightarrow> nct_match | None \<Rightarrow> filename)"

subsection \<open>JSON values and dictionaries\<close>

text \<open>
  Python values that come out of \<^verbatim>\<open>json\<close>; \<open>JNull\<close> is \<^verbatim>\<open>None\<close>. Numbers are
  integers here (the code compares them with \<^verbatim>\<open>200\<close> only).
\<close>

datatype json =
    JNull
  | JBool bool
  | JNum int
  | JStr string
  | JList "json list"
  | JDict "(string \<times> json) list"

type_synonym pydict = "(string \<times> json) list"

text \<open>Truthiness, as \<^verbatim>\<open>if x:\<close> and \<^verbatim>\<open>x or y\<close> see it.\<close>

fun truthy :: "json \<Rightarrow> bool" where
  "truthy JNull = False"
| "truthy (JBool b) = b"
| "truthy (JNum n) = (n \<noteq> 0)"
| "truthy (JStr s) = (s \<noteq> [])"
| "truthy (JList xs) = (xs \<noteq> [])"
| "truthy (JDict d) = (d \<noteq> [])"

text \<open>\<^verbatim>\<open>d.get(k)\<close>, \<^verbatim>\<open>d.get(k, default)\<close> and \<^verbatim>\<open>d[k] = v\<close> (a present key keeps its
  place, a new key goes last).\<close>

definition dict_get_default :: "('k \<times> json) list \<Rightarrow> 'k \<Rightarrow> json \<Rightarrow> json" where
  "dict_get_default d k dflt = (case map_of d k of None \<Rightarrow> dflt | Some v \<Rightarrow> v)"

definition dict_get :: "('k \<times> json) list \<Rightarrow> 'k \<Rightarrow> json" where
  "dict_get d k = dict_get_default d k JNull"

fun dict_set :: "'k \<Rightarrow> 'v \<Rightarrow> ('k \<times> 'v) list \<Rightarrow> ('k \<times> 'v) list" where
  "dict_set k v [] = [(k, v)]"
| "dict_set k v ((k', v') # rest) =
     (if k' = k then (k, v) # rest else (k', v') # dict_set k v rest)"

subsection \<open>Paths (pathlib)\<close>

text \<open>
  A path is the list of its components without the anchor. \<^verbatim>\<open>Path.name\<close> is the last
  component, or the empty string when there is none; \<^verbatim>\<open>Path.parent\<close> drops the last
  component and stays where it is at the top. The anchor is never \<^verbatim>\<open>history\<close>, so
  \<^verbatim>\<open>"history" in path.parts\<close> is membership among the components.
\<close>

type_synonym path = "string list"

definition path_name :: "path \<Rightarrow> string" where
  "path_name p = (if p = [] then [] else last p)"

definition path_parent :: "path \<Rightarrow> path" where
  "path_parent p = butlast p"

text \<open>\<^verbatim>\<open>Path.suffix\<close>: from the last dot of the name, when that dot is neither the
  first nor the last character.\<close>

definition path_suffix :: "path \<Rightarrow> string" where
  "path_suffix p =
     (let name = path_name p; r = takeWhile (\<lambda>c. c \<noteq> CHR ''.'') (rev name)
      in if CHR ''.'' \<in> set name \<and> 0 < length r \<and> length r + 1 < length name
         then CHR ''.'' # rev r else [])"

fun join_path :: "path \<Rightarrow> string" where
  "join_path [] = ''.''"
| "join_path [x] = x"
| "join_path (x # y # ys) = x @ ''/'' @ join_path (y # ys)"

subsection \<open>The file system under the state file\<close>

record fs =
  fs_dirs :: "path set"
  fs_files :: "path \<rightharpoonup> string"

datatype fs_op = Mkdir_parents path | Open_w path | Write_chunk path string | Close_file path

fun path_prefixes :: "path \<Rightarrow> path list" where
  "path_prefixes [] = [[]]"
| "path_prefixes (x # xs) = [] # map ((#) x) (path_prefixes xs)"

text \<open>
  \<^verbatim>\<open>mkdir(parents=True, exist_ok=True)\<close> makes the directory and its ancestors;
  \<^verbatim>\<open>open(path, "w")\<close> creates the file or truncates it to nothing at once;
  a write appends to what is there.
\<close>

fun fs_step :: "fs_op \<Rightarrow> fs \<Rightarrow> fs" where
  "fs_step (Mkdir_parents p) d = d\<lparr>fs_dirs := fs_dirs d \<union> set (path_prefixes p)\<rparr>"
| "fs_step (Open_w p) d = d\<lparr>fs_files := (fs_files d)(p \<mapsto> [])\<rparr>"
| "fs_step (Write_chunk p c) d =
     d\<lparr>fs_files := (fs_files d)(p \<mapsto> (case fs_files d p of None \<Rightarrow> c | Some old \<Rightarrow> old @ c))\<rparr>"
| "fs_step (Close_file p) d = d"

subsection \<open>The remote service\<close>

text \<open>
  A request is what the code sends: list collections by name, create a folder
  collection, or upload a local file (its display name, its bytes, the parent
  collection). A response is an exception of the transport, or a status code with the
  dictionary \<^verbatim>\<open>_safe_json\<close> makes of the body.
\<close>

datatype request =
    Collection_list string json
  | Collection_create string json
  | Create_localFile string string json

datatype response = Transport_error | Http int pydict

type_synonym exchange = "request \<times> response"

datatype error = ValueError

subsection \<open>Configuration, environment and state\<close>

type_synonym store = "(string \<times> pydict) list"

record env =
  FASTGPT_CN_SUBDIR :: string
  RETRY_TIMES :: int
  RETRY_DELAY :: int
  UPLOAD_FILTER_MODE :: string
  SYNC_STATE_DB :: path
  today_str :: string
  now_iso :: "nat \<Rightarrow> string"
  md5_hexdigest :: "string \<Rightarrow> string"
  json_chunks :: "store \<Rightarrow> string list"
  remote :: "exchange list \<Rightarrow> request \<Rightarrow> response"

text \<open>
  \<open>today_str\<close> is \<^verbatim>\<open>datetime.now().strftime("%Y-%m-%d")\<close>; \<open>now_iso n\<close> is
  \<^verbatim>\<open>datetime.now().isoformat()\<close> after \<open>n\<close> exchanges with the remote;
  \<open>md5_hexdigest\<close> is \<^verbatim>\<open>_get_file_hash\<close> on the bytes of a file; \<open>json_chunks\<close> are the
  pieces \<^verbatim>\<open>json.dump\<close> writes for the state; \<open>remote\<close> answers a request given all
  earlier exchanges of the run.
\<close>

record sync_state =
  files_db :: store
  disk :: fs
  added :: nat
  modified :: nat
  skipped :: nat
  collection_cache :: "(string \<times> json) list"
  exchanges :: "exchange list"
  sleeps :: "int list"
  crashed :: "error option"

record file_entry =
  rel :: path
  is_file :: bool
  content :: string

record scan_root =
  root_path :: path
  root_exists :: bool
  entries :: "file_entry list"

subsection \<open>\<^verbatim>\<open>_save_state\<close>\<close>

definition save_ops :: "env \<Rightarrow> store \<Rightarrow> fs_op list" where
  "save_ops e db =
     [Mkdir_parents (path_parent (SYNC_STATE_DB e)), Open_w (SYNC_STATE_DB e)]
     @ map (Write_chunk (SYNC_STATE_DB e)) (json_chunks e db)
     @ [Close_file (SYNC_STATE_DB e)]"

text \<open>The save stopped after its first \<open>n\<close> steps; the whole save is all of them.\<close>

definition interrupted_save :: "nat \<Rightarrow> env \<Rightarrow> store \<Rightarrow> fs \<Rightarrow> fs" where
  "interrupted_save n e db d = fold fs_step (take n (save_ops e db)) d"

definition write_state :: "env \<Rightarrow> store \<Rightarrow> fs \<Rightarrow> fs" where
  "write_state e db d = fold fs_step (save_ops e db) d"

definition save_state :: "env \<Rightarrow> sync_state \<Rightarrow> sync_state" where
  "save_state e s = s\<lparr>disk := write_state e (files_db s) (disk s)\<rparr>"

subsection \<open>Remote store client\<close>

definition send :: "env \<Rightarrow> request \<Rightarrow> sync_state \<Rightarrow> response \<times> sync_state" where
  "send e rq s =
     (let resp = remote e (exchanges s) rq
      in (resp, s\<lparr>exchanges := exchanges s @ [(rq, resp)]\<rparr>))"

text \<open>\<^verbatim>\<open>resp.status_code == 200\<close> and \<^verbatim>\<open>res_json.get("code") == 200\<close>.\<close>

fun api_ok :: "response \<Rightarrow> bool" where
  "api_ok Transport_error = False"
| "api_ok (Http status body) = (status = 200 \<and> dict_get body ''code'' = JNum 200)"

text \<open>The loop over the listed collections: the first dictionary of that name decides.\<close>

fun find_collection :: "string \<Rightarrow> json list \<Rightarrow> json option" where
  "find_collection name [] = None"
| "find_collection name (JDict col # cols) =
     (if map_of col ''name'' = Some (JStr name) then Some (dict_get col ''_id'')
      else find_collection name cols)"
| "find_collection name (_ # cols) = find_collection name cols"

definition lookup_collection :: "string \<Rightarrow> response \<Rightarrow> json option" where
  "lookup_collection name resp =
     (if api_ok resp then
        (case resp of
           Http status body \<Rightarrow>
             (case dict_get_default body ''data'' (JList []) of
                JList collections \<Rightarrow> find_collection name collections
              | _ \<Rightarrow> None)
         | Transport_error \<Rightarrow> None)
      else None)"

definition created_id :: "response \<Rightarrow> json" where
  "created_id resp =
     (if api_ok resp then
        (case resp of
           Http status body \<Rightarrow>
             (case dict_get body ''data'' of
                JDict d \<Rightarrow> (if truthy (dict_get d ''_id'') then dict_get d ''_id''
                            else dict_get d ''collectionId'')
              | data \<Rightarrow> data)
         | Transport_error \<Rightarrow> JNull)
      else JNull)"

text \<open>The parent sent with a request: \<^verbatim>\<open>parentId\<close> is set only for a truthy
  \<^verbatim>\<open>parent_id\<close>.\<close>

definition parent_param :: "json \<Rightarrow> json" where
  "parent_param parent_id = (if truthy parent_id then parent_id else JNull)"

definition get_or_create_collection ::
  "env \<Rightarrow> string \<Rightarrow> json \<Rightarrow> sync_state \<Rightarrow> json \<times> sync_state" where
  "get_or_create_collection e name parent_id s =
     (case send e (Collection_list name (parent_param parent_id)) s of
        (Transport_error, s1) \<Rightarrow> (JNull, s1)
      | (resp, s1) \<Rightarrow>
          (case lookup_collection name resp of
             Some col_id \<Rightarrow> (col_id, s1)
           | None \<Rightarrow>
               (case send e (Collection_create name (parent_param parent_id)) s1 of
                  (resp2, s2) \<Rightarrow> (created_id resp2, s2))))"

text \<open>
  \<^verbatim>\<open>upload_file\<close>: \<open>k\<close> attempts are left. After a failed attempt that is not the last
  the code sleeps; \<^verbatim>\<open>time.sleep\<close> raises \<^verbatim>\<open>ValueError\<close> on a negative delay, outside
  the \<^verbatim>\<open>try\<close>.
\<close>

fun upload_attempts :: "env \<Rightarrow> request \<Rightarrow> nat \<Rightarrow> sync_state \<Rightarrow> (error + bool) \<times> sync_state" where
  "upload_attempts e rq 0 s = (Inr False, s)"
| "upload_attempts e rq (Suc k) s =
     (case send e rq s of
        (resp, s1) \<Rightarrow>
          if api_ok resp then (Inr True, s1)
          else if 0 < k then
            (if RETRY_DELAY e < 0 then (Inl ValueError, s1)
             else upload_attempts e rq k (s1\<lparr>sleeps := sleeps s1 @ [RETRY_DELAY e]\<rparr>))
          else upload_attempts e rq k s1)"

definition upload_file ::
  "env \<Rightarrow> string \<Rightarrow> string \<Rightarrow> json \<Rightarrow> sync_state \<Rightarrow> (error + bool) \<times> sync_state" where
  "upload_file e filename bytes collection_id s =
     upload_attempts e (Create_localFile filename bytes collection_id) (nat (RETRY_TIMES e)) s"

subsection \<open>\<^verbatim>\<open>sync_once\<close>: migration\<close>

definition with_filename :: "string \<Rightarrow> pydict \<Rightarrow> pydict" where
  "with_filename key val =
     (if map_of val ''filename'' = None then dict_set ''filename'' (JStr key) val else val)"

fun migrate_loop :: "store \<Rightarrow> store \<Rightarrow> store" where
  "migrate_loop [] migrated_files = migrated_files"
| "migrate_loop ((key, val) # rest) migrated_files =
     (let new_identity = get_file_identity key
      in if map_of migrated_files new_identity = None
         then migrate_loop rest (dict_set new_identity (with_filename key val) migrated_files)
         else migrate_loop rest migrated_files)"

definition migrate :: "store \<Rightarrow> store" where
  "migrate original_files = migrate_loop original_files []"

definition migration_phase :: "env \<Rightarrow> store \<Rightarrow> fs \<Rightarrow> sync_state" where
  "migration_phase e db d =
     save_state e
       \<lparr>files_db = migrate db, disk = d, added = 0, modified = 0, skipped = 0,
        collection_cache = [], exchanges = [], sleeps = [], crashed = None\<rparr>"

subsection \<open>\<^verbatim>\<open>sync_once\<close>: scan and filter\<close>

definition file_path :: "scan_root \<Rightarrow> file_entry \<Rightarrow> path" where
  "file_path root ent = root_path root @ rel ent"

definition filename_of :: "scan_root \<Rightarrow> file_entry \<Rightarrow> string" where
  "filename_of root ent = path_name (file_path root ent)"

text \<open>The core filter and the date filter of the loop body.\<close>

definition marker_ok :: "string \<Rightarrow> bool" where
  "marker_ok filename = (contains ''-zh'' filename \<and> \<not> contains ''.DS_Store'' filename)"

definition date_ok :: "env \<Rightarrow> string \<Rightarrow> bool" where
  "date_ok e filename =
     (if UPLOAD_FILTER_MODE e = ''today'' then startswith (today_str e) filename else True)"

text \<open>\<^verbatim>\<open>file_state and file_state.get("hash") == file_hash\<close>.\<close>

definition unchanged :: "pydict option \<Rightarrow> string \<Rightarrow> bool" where
  "unchanged file_state file_hash =
     (case file_state of
        None \<Rightarrow> False
      | Some r \<Rightarrow> r \<noteq> [] \<and> dict_get r ''hash'' = JStr file_hash)"

definition state_truthy :: "pydict option \<Rightarrow> bool" where
  "state_truthy file_state = (case file_state of None \<Rightarrow> False | Some r \<Rightarrow> r \<noteq> [])"

definition collection_name_of :: "env \<Rightarrow> scan_root \<Rightarrow> file_entry \<Rightarrow> string" where
  "collection_name_of e root ent =
     (let fp = file_path root ent;
          c0 = path_name (path_parent fp);
          c1 = (if c0 \<in> set [FASTGPT_CN_SUBDIR e, ''zh'', ''en'']
                then path_name (path_parent (path_parent fp)) else c0);
          c2 = (if ''history'' \<in> set fp then ''history'' else c1)
      in if c2 = [] \<or> c2 \<in> set [''.'', ''/'', path_name (root_path root)]
         then ''Default_Collection'' else c2)"

definition resolve_collection :: "env \<Rightarrow> string \<Rightarrow> sync_state \<Rightarrow> json \<times> sync_state" where
  "resolve_collection e collection_name s =
     (case map_of (collection_cache s) collection_name of
        Some collection_id \<Rightarrow> (collection_id, s)
      | None \<Rightarrow>
          (case get_or_create_collection e collection_name JNull s of
             (collection_id, s1) \<Rightarrow>
               (collection_id,
                if truthy collection_id
                then s1\<lparr>collection_cache :=
                          dict_set collection_name collection_id (collection_cache s1)\<rparr>
                else s1)))"

definition new_record :: "env \<Rightarrow> scan_root \<Rightarrow> file_entry \<Rightarrow> json \<Rightarrow> sync_state \<Rightarrow> pydict" where
  "new_record e root ent collection_id s =
     [(''filename'', JStr (filename_of root ent)),
      (''hash'', JStr (md5_hexdigest e (content ent))),
      (''uploadTime'', JStr (now_iso e (length (exchanges s)))),
      (''collectionId'', collection_id),
      (''sourcePath'', JStr (join_path (rel ent)))]"

definition record_upload :: "env \<Rightarrow> scan_root \<Rightarrow> file_entry \<Rightarrow> json \<Rightarrow> bool \<Rightarrow> sync_state \<Rightarrow> sync_state" where
  "record_upload e root ent collection_id had_state s =
     save_state e
       (s\<lparr>files_db := dict_set (get_file_identity (filename_of root ent))
                        (new_record e root ent collection_id s) (files_db s),
          modified := (if had_state then modified s + 1 else modified s),
          added := (if had_state then added s else added s + 1)\<rparr>)"

definition upload_needed :: "env \<Rightarrow> scan_root \<Rightarrow> file_entry \<Rightarrow> sync_state \<Rightarrow> sync_state" where
  "upload_needed e root ent s =
     (let file_state = map_of (files_db s) (get_file_identity (filename_of root ent))
      in case resolve_collection e (collection_name_of e root ent) s of
           (collection_id, s1) \<Rightarrow>
             if \<not> truthy collection_id then s1
             else (case upload_file e (filename_of root ent) (content ent) collection_id s1 of
                     (Inl err, s2) \<Rightarrow> s2\<lparr>crashed := Some err\<rparr>
                   | (Inr True, s2) \<Rightarrow>
                       record_upload e root ent collection_id (state_truthy file_state) s2
                   | (Inr False, s2) \<Rightarrow> s2))"

definition process_file :: "env \<Rightarrow> scan_root \<Rightarrow> file_entry \<Rightarrow> sync_state \<Rightarrow> sync_state" where
  "process_file e root ent s =
     (let filename = filename_of root ent
      in if \<not> contains ''-zh'' filename \<or> contains ''.DS_Store'' filename then s
         else if UPLOAD_FILTER_MODE e = ''today'' \<and> \<not> startswith (today_str e) filename
         then s\<lparr>skipped := skipped s + 1\<rparr>
         else if unchanged (map_of (files_db s) (get_file_identity filename))
                   (md5_hexdigest e (content ent))
         then s\<lparr>skipped := skipped s + 1\<rparr>
         else upload_needed e root ent s)"

text \<open>An exception that escapes the loop body ends the run: the rest is not processed.\<close>

fun scan_files :: "env \<Rightarrow> scan_root \<Rightarrow> file_entry list \<Rightarrow> sync_state \<Rightarrow> sync_state" where
  "scan_files e root [] s = s"
| "scan_files e root (ent # ents) s =
     (if crashed s \<noteq> None then s else scan_files e root ents (process_file e root ent s))"

definition all_files :: "scan_root \<Rightarrow> file_entry list" where
  "all_files root =
     filter (\<lambda>f. is_file f \<and> path_suffix (file_path root f) = ''.md'') (entries root)"

fun scan_roots :: "env \<Rightarrow> scan_root list \<Rightarrow> sync_state \<Rightarrow> sync_state" where
  "scan_roots e [] s = s"
| "scan_roots e (root # roots) s =
     (if crashed s \<noteq> None then s
      else if \<not> root_exists root then scan_roots e roots s
      else scan_roots e roots (scan_files e root (all_files root) s))"

definition sync_once :: "env \<Rightarrow> scan_root list \<Rightarrow> store \<Rightarrow> fs \<Rightarrow> sync_state" where
  "sync_once e roots db d = scan_roots e roots (migration_phase e db d)"

section \<open>Properties\<close>

subsection \<open>Vocabulary of the properties\<close>

text \<open>A token starts at position \<open>i\<close> of \<open>s\<close>; \<open>t\<close> is a token: the three letters and
  exactly eight digits.\<close>

definition token_at :: "nat \<Rightarrow> string \<Rightarrow> bool" where
  "token_at i s = nct_here (drop i s)"

definition is_token :: "string \<Rightarrow> bool" where
  "is_token t = (length t = 11 \<and> nct_here t)"

text \<open>What migration establishes: distinct keys, each its own identity, each record
  with a \<^verbatim>\<open>filename\<close>.\<close>

definition store_inv :: "store \<Rightarrow> bool" where
  "store_inv db = (distinct (map fst db) \<and>
     list_all (\<lambda>(k, v). get_file_identity k = k \<and> map_of v ''filename'' \<noteq> None) db)"

text \<open>The files a run processes, in order, each with its root; and the loop over them.
  \<open>scan_roots\<close> is this loop on the work list of the roots.\<close>

definition work_list :: "scan_root list \<Rightarrow> (scan_root \<times> file_entry) list" where
  "work_list roots =
     concat (map (\<lambda>root. if root_exists root then map (Pair root) (all_files root) else []) roots)"

fun scan_pairs :: "env \<Rightarrow> (scan_root \<times> file_entry) list \<Rightarrow> sync_state \<Rightarrow> sync_state" where
  "scan_pairs e [] s = s"
| "scan_pairs e ((root, ent) # ps) s =
     (if crashed s \<noteq> None then s else scan_pairs e ps (process_file e root ent s))"

text \<open>The display names of the uploads among some exchanges; the number of
  find-or-create calls for a grouping name (each call begins with one list request).\<close>

fun uploaded_name :: "exchange \<Rightarrow> string option" where
  "uploaded_name (Create_localFile fn bytes cid, resp) = Some fn"
| "uploaded_name (rq, resp) = None"

definition uploaded_names :: "exchange list \<Rightarrow> string list" where
  "uploaded_names xs = List.map_filter uploaded_name xs"

fun is_resolution_of :: "string \<Rightarrow> exchange \<Rightarrow> bool" where
  "is_resolution_of n (Collection_list m p, resp) = (m = n)"
| "is_resolution_of n (rq, resp) = False"

definition resolution_calls :: "string \<Rightarrow> exchange list \<Rightarrow> nat" where
  "resolution_calls n xs = length (filter (is_resolution_of n) xs)"

text \<open>Every find-or-create call obtains an id.\<close>

definition resolution_always_succeeds :: "env \<Rightarrow> bool" where
  "resolution_always_succeeds e =
     (\<forall>n s. truthy (fst (get_or_create_collection e n JNull s)))"

text \<open>The grouping policy in the words of the specification: variant directories,
  usable names, the name \<open>k\<close> levels above the file, the candidate and the result.\<close>

definition variant_name :: "env \<Rightarrow> string \<Rightarrow> bool" where
  "variant_name e c = (c = FASTGPT_CN_SUBDIR e \<or> c = ''zh'' \<or> c = ''en'')"

definition usable_name :: "scan_root \<Rightarrow> string \<Rightarrow> bool" where
  "usable_name root c =
     (c \<noteq> [] \<and> c \<noteq> ''.'' \<and> c \<noteq> ''/'' \<and> c \<noteq> path_name (root_path root))"

definition dir_name_above :: "nat \<Rightarrow> path \<Rightarrow> string" where
  "dir_name_above k fp = (if k < length fp then fp ! (length fp - Suc k) else [])"

definition grouping_candidate :: "env \<Rightarrow> path \<Rightarrow> string" where
  "grouping_candidate e fp =
     (if ''history'' \<in> set fp then ''history''
      else if variant_name e (dir_name_above 1 fp) then dir_name_above 2 fp
      else dir_name_above 1 fp)"

definition grouping_name :: "env \<Rightarrow> scan_root \<Rightarrow> path \<Rightarrow> string" where
  "grouping_name e root fp =
     (if usable_name root (grouping_candidate e fp) then grouping_candidate e fp
      else ''Default_Collection'')"

text \<open>
  A file is eligible when it passes the marker rule and the date rule; it is in sync
  with a store when the record of its identity holds the digest of its bytes. A run
  succeeds at the remote when every upload is accepted at once and every
  find-or-create call obtains an id. Files are identity-consistent when two eligible
  files of one identity have the same digest.
\<close>

definition eligible :: "env \<Rightarrow> scan_root \<Rightarrow> file_entry \<Rightarrow> bool" where
  "eligible e root ent =
     (marker_ok (filename_of root ent) \<and> date_ok e (filename_of root ent))"

definition in_sync :: "env \<Rightarrow> store \<Rightarrow> scan_root \<Rightarrow> file_entry \<Rightarrow> bool" where
  "in_sync e db root ent =
     unchanged (map_of db (get_file_identity (filename_of root ent)))
       (md5_hexdigest e (content ent))"

definition run_succeeds :: "env \<Rightarrow> bool" where
  "run_succeeds e =
     (1 \<le> RETRY_TIMES e
      \<and> (\<forall>h fn bytes cid. api_ok (remote e h (Create_localFile fn bytes cid)))
      \<and> resolution_always_succeeds e)"

definition same_identity_same_digest ::
  "env \<Rightarrow> scan_root \<times> file_entry \<Rightarrow> scan_root \<times> file_entry \<Rightarrow> bool" where
  "same_identity_same_digest e p q =
     (eligible e (fst p) (snd p) \<and> eligible e (fst q) (snd q)
      \<and> get_file_identity (filename_of (fst p) (snd p))
          = get_file_identity (filename_of (fst q) (snd q))
      \<longrightarrow> md5_hexdigest e (content (snd p)) = md5_hexdigest e (content (snd q)))"

definition identity_consistent :: "env \<Rightarrow> (scan_root \<times> file_entry) list \<Rightarrow> bool" where
  "identity_consistent e ps = list_all (\<lambda>p. list_all (same_identity_same_digest e p) ps) ps"

definition cache_ok :: "sync_state \<Rightarrow> bool" where
  "cache_ok s = list_all (\<lambda>kv. truthy (snd kv)) (collection_cache s)"

subsection \<open>Concrete inputs\<close>

text \<open>
  A digest for the examples (the MD5 of the two contents used), three remotes (one that
  accepts everything and finds no collection, so that it creates each one; one that
  rejects every upload; one that answers 500 to everything), an environment, files and
  roots.
\<close>

definition ex_md5 :: "string \<Rightarrow> string" where
  "ex_md5 bytes =
     (if bytes = ''v1'' then ''6654c734ccab8f440ff0825eb443dc7f''
      else if bytes = ''v2'' then ''1b267619c4812cc46ee281747884ca50''
      else ''d41d8cd98f00b204e9800998ecf8427e'')"

definition ok_body :: "json \<Rightarrow> pydict" where
  "ok_body data = [(''code'', JNum 200), (''data'', data)]"

fun remote_accepts :: "exchange list \<Rightarrow> request \<Rightarrow> response" where
  "remote_accepts h (Collection_list n p) = Http 200 (ok_body (JList []))"
| "remote_accepts h (Collection_create n p) = Http 200 (ok_body (JStr (''col-'' @ n)))"
| "remote_accepts h (Create_localFile f c i) = Http 200 (ok_body JNull)"

fun remote_rejects_uploads :: "exchange list \<Rightarrow> request \<Rightarrow> response" where
  "remote_rejects_uploads h (Create_localFile f c i) = Http 500 []"
| "remote_rejects_uploads h rq = remote_accepts h rq"

definition remote_down :: "exchange list \<Rightarrow> request \<Rightarrow> response" where
  "remote_down h rq = Http 500 []"

definition ex_env :: env where
  "ex_env = \<lparr>FASTGPT_CN_SUBDIR = ''cn'', RETRY_TIMES = 3, RETRY_DELAY = 5,
             UPLOAD_FILTER_MODE = ''all'',
             SYNC_STATE_DB = [''data'', ''fastgpt_sync_state.json''],
             today_str = ''2025-01-02'',
             now_iso = (\<lambda>n. ''2025-01-02T02:00:00''),
             md5_hexdigest = ex_md5,
             json_chunks = (\<lambda>db. ''{'' # map fst db @ [''}'']),
             remote = remote_accepts\<rparr>"

definition ex_env_today :: env where
  "ex_env_today = ex_env\<lparr>UPLOAD_FILTER_MODE := ''today''\<rparr>"

definition ex_env_rejects :: env where
  "ex_env_rejects = ex_env\<lparr>remote := remote_rejects_uploads\<rparr>"

definition ex_env_down :: env where
  "ex_env_down = ex_env\<lparr>remote := remote_down\<rparr>"

definition ex_disk :: fs where
  "ex_disk = \<lparr>fs_dirs = {}, fs_files = Map.empty\<rparr>"

definition ex_old_disk :: fs where
  "ex_old_disk = \<lparr>fs_dirs = {[], [''data'']},
                  fs_files = [[''data'', ''fastgpt_sync_state.json''] \<mapsto> ''{NCT00000001}'']\<rparr>"

definition ex_fileA :: file_entry where
  "ex_fileA = \<lparr>rel = [''trials'', ''2025-01-01-NCT01234567-zh.md''], is_file = True,
               content = ''v1''\<rparr>"

definition ex_fileB :: file_entry where
  "ex_fileB = \<lparr>rel = [''trials'', ''2025-01-02-NCT01234567-zh.md''], is_file = True,
               content = ''v2''\<rparr>"

definition ex_fileN :: file_entry where
  "ex_fileN = \<lparr>rel = [''trials'', ''2025-01-02-NCT01234567.md''], is_file = True,
               content = ''v1''\<rparr>"

definition ex_fileH1 :: file_entry where
  "ex_fileH1 = \<lparr>rel = [''history'', ''2025-01-01-NCT00000001-zh.md''], is_file = True,
                content = ''v1''\<rparr>"

definition ex_fileH2 :: file_entry where
  "ex_fileH2 = \<lparr>rel = [''history'', ''2025-01-01-NCT00000002-zh.md''], is_file = True,
                content = ''v2''\<rparr>"

definition ex_root :: "file_entry list \<Rightarrow> scan_root" where
  "ex_root ents = \<lparr>root_path = [''output''], root_exists = True, entries = ents\<rparr>"

text \<open>A scan root that is itself a directory named \<^verbatim>\<open>history\<close>.\<close>

definition ex_history_root :: scan_root where
  "ex_history_root = \<lparr>root_path = [''history''], root_exists = True, entries = []\<rparr>"

definition ex_state :: "store \<Rightarrow> sync_state" where
  "ex_state db = \<lparr>files_db = db, disk = ex_disk, added = 0, modified = 0, skipped = 0,
                  collection_cache = [], exchanges = [], sleeps = [], crashed = None\<rparr>"

definition ex_store_v1 :: store where
  "ex_store_v1 = [(''NCT01234567'', [(''filename'', JStr ''2025-01-01-NCT01234567-zh.md''),
                                    (''hash'', JStr ''6654c734ccab8f440ff0825eb443dc7f'')])]"

definition ex_store_v2 :: store where
  "ex_store_v2 = [(''NCT01234567'', [(''filename'', JStr ''2025-01-02-NCT01234567-zh.md''),
                                    (''hash'', JStr ''1b267619c4812cc46ee281747884ca50'')])]"

definition ex_legacy :: store where
  "ex_legacy =
     [(''NCT06959615.md'', [(''hash'', JStr ''aaa'')]),
      (''2026-01-01-NCT06959615-zh.md'',
         [(''hash'', JStr ''bbb''), (''filename'', JStr ''2026-01-01-NCT06959615-zh.md'')]),
      (''notes-zh.md'', [(''hash'', JStr ''ccc'')])]"

section \<open>Proofs\<close>

subsection \<open>Identity resolver\<close>

lemma nct_here_take: "nct_here s \<Longrightarrow> nct_here (take 11 s)"
  by (simp add: nct_here_def take_drop min_def)

lemma nct_here_Nil [simp]: "\<not> nct_here []"
  by (simp add: nct_here_def)

lemma re_search_Some:
  "re_search_nct s = Some t \<Longrightarrow>
     \<exists>i. token_at i s \<and> (\<forall>j<i. \<not> token_at j s) \<and> t = take 11 (drop i s)"
proof (induction s)
  case Nil
  then show ?case by simp
next
  case (Cons c cs)
  show ?case
  proof (cases "nct_here (c # cs)")
    case True
    with Cons.prems have "t = take 11 (drop 0 (c # cs))" by simp
    with True show ?thesis unfolding token_at_def
      by (intro exI[of _ 0]) simp
  next
    case False
    with Cons.prems have "re_search_nct cs = Some t" by simp
    from Cons.IH[OF this] obtain i where
      i: "token_at i cs" "\<forall>j<i. \<not> token_at j cs" "t = take 11 (drop i cs)" by blast
    have "\<forall>j<Suc i. \<not> token_at j (c # cs)"
    proof (intro allI impI)
      fix j assume "j < Suc i"
      then show "\<not> token_at j (c # cs)"
        using False i(2) by (cases j) (simp_all add: token_at_def)
    qed
    with i show ?thesis
      by (intro exI[of _ "Suc i"]) (simp add: token_at_def)
  qed
qed

lemma re_search_None: "re_search_nct s = None \<Longrightarrow> \<not> token_at i s"
proof (induction s arbitrary: i)
  case Nil
  then show ?case by (simp add: token_at_def)
next
  case (Cons c cs)
  then show ?case
    by (cases i) (auto simp: token_at_def split: if_splits)
qed

lemma re_search_None_iff: "re_search_nct s = None \<longleftrightarrow> (\<forall>i. \<not> token_at i s)"
proof
  assume "re_search_nct s = None"
  then show "\<forall>i. \<not> token_at i s" by (simp add: re_search_None)
next
  assume a: "\<forall>i. \<not> token_at i s"
  show "re_search_nct s = None"
  proof (cases "re_search_nct s")
    case None then show ?thesis .
  next
    case (Some t)
    from re_search_Some[OF this] a show ?thesis by blast
  qed
qed

lemma least_unique:
  "token_at i s \<Longrightarrow> \<forall>j<i. \<not> token_at j s \<Longrightarrow> token_at k s \<Longrightarrow> \<forall>j<k. \<not> token_at j s \<Longrightarrow> i = (k::nat)"
  by (metis linorder_neqE_nat)

lemma identity_first:
  assumes "token_at i s" "\<forall>j<i. \<not> token_at j s"
  shows "get_file_identity s = take 11 (drop i s)"
proof -
  from assms(1) have "re_search_nct s \<noteq> None" by (auto simp: re_search_None_iff)
  then obtain t where t: "re_search_nct s = Some t" by blast
  from re_search_Some[OF t] obtain k where
    k: "token_at k s" "\<forall>j<k. \<not> token_at j s" "t = take 11 (drop k s)" by blast
  from least_unique[OF assms k(1,2)] have "i = k" .
  with t k(3) show ?thesis by (simp add: get_file_identity_def)
qed

lemma token_at_decomp:
  "length ds = 8 \<Longrightarrow> list_all is_digit ds \<Longrightarrow> token_at (length pre) (pre @ ''NCT'' @ ds @ post)"
  by (simp add: token_at_def nct_here_def)

lemma is_token_iff:
  "is_token t \<longleftrightarrow> (\<exists>ds. t = ''NCT'' @ ds \<and> length ds = 8 \<and> list_all is_digit ds)"
proof
  assume "is_token t"
  then have a: "length t = 11" "take 3 t = ''NCT''" "list_all is_digit (take 8 (drop 3 t))"
    unfolding is_token_def nct_here_def by blast+
  have "t = take 3 t @ drop 3 t" by simp
  moreover from a(1) have "take 8 (drop 3 t) = drop 3 t" by simp
  ultimately have "t = ''NCT'' @ drop 3 t \<and> length (drop 3 t) = 8 \<and> list_all is_digit (drop 3 t)"
    using a by simp
  then show "\<exists>ds. t = ''NCT'' @ ds \<and> length ds = 8 \<and> list_all is_digit ds" by blast
next
  assume "\<exists>ds. t = ''NCT'' @ ds \<and> length ds = 8 \<and> list_all is_digit ds"
  then show "is_token t" by (auto simp: is_token_def nct_here_def)
qed

lemma token_at_iff_decomp:
  "token_at i s \<longleftrightarrow> (\<exists>pre ds post. s = pre @ ''NCT'' @ ds @ post \<and> length pre = i \<and> length ds = 8 \<and> list_all is_digit ds)"
proof
  assume a: "token_at i s"
  then have n: "nct_here (drop i s)" by (simp add: token_at_def)
  then have l: "11 \<le> length (drop i s)" by (simp add: nct_here_def)
  from n l have "is_token (take 11 (drop i s))" by (simp add: is_token_def nct_here_take)
  then obtain ds where ds: "take 11 (drop i s) = ''NCT'' @ ds" "length ds = 8" "list_all is_digit ds"
    using is_token_iff by blast
  have "s = take i s @ take 11 (drop i s) @ drop 11 (drop i s)"
    by (metis append_take_drop_id)
  with ds have "s = take i s @ ''NCT'' @ ds @ drop 11 (drop i s)" by simp
  moreover from l have "length (take i s) = i" by simp
  ultimately show "\<exists>pre ds post. s = pre @ ''NCT'' @ ds @ post \<and> length pre = i \<and> length ds = 8 \<and> list_all is_digit ds"
    using ds by blast
next
  assume "\<exists>pre ds post. s = pre @ ''NCT'' @ ds @ post \<and> length pre = i \<and> length ds = 8 \<and> list_all is_digit ds"
  then show "token_at i s" using token_at_decomp by blast
qed


lemma identity_idem: "get_file_identity (get_file_identity s) = get_file_identity s"
proof (cases "re_search_nct s")
  case None
  then show ?thesis by (simp add: get_file_identity_def)
next
  case (Some t)
  from re_search_Some[OF this] obtain k where
    k: "token_at k s" "t = take 11 (drop k s)" by blast
  then have "nct_here t" by (simp add: token_at_def nct_here_take)
  then have "re_search_nct t = Some (take 11 t)" by (cases t) simp_all
  moreover have "take 11 t = t" using k(2) by simp
  ultimately show ?thesis using Some by (simp add: get_file_identity_def)
qed



subsection \<open>State store: migration and saving\<close>

lemma dict_set_map_of: "map_of (dict_set k v xs) = (map_of xs)(k \<mapsto> v)"
  by (induction xs) (auto simp: fun_eq_iff)

lemma dict_set_new: "map_of xs k = None \<Longrightarrow> dict_set k v xs = xs @ [(k, v)]"
  by (induction xs) (auto split: if_splits)

lemma with_filename_has: "map_of (with_filename key val) ''filename'' \<noteq> None"
  by (simp add: with_filename_def dict_set_map_of)

lemma with_filename_id: "map_of val ''filename'' \<noteq> None \<Longrightarrow> with_filename key val = val"
  by (auto simp: with_filename_def)

lemma migrate_loop_map_of:
  "map_of (migrate_loop xs acc) i =
     (case map_of acc i of
        Some r \<Rightarrow> Some r
      | None \<Rightarrow> (case find (\<lambda>(k, v). get_file_identity k = i) xs of
                   None \<Rightarrow> None
                 | Some (k, v) \<Rightarrow> Some (with_filename k v)))"
proof (induction xs arbitrary: acc)
  case Nil
  then show ?case by (simp split: option.splits)
next
  case (Cons kv rest)
  obtain k v where kv: "kv = (k, v)" by (cases kv)
  show ?case
    unfolding kv
    by (simp add: Cons.IH dict_set_map_of Let_def split: option.splits)
qed

lemma store_inv_snoc:
  "store_inv acc \<Longrightarrow> map_of acc k = None \<Longrightarrow> get_file_identity k = k \<Longrightarrow>
   map_of v ''filename'' \<noteq> None \<Longrightarrow> store_inv (acc @ [(k, v)])"
  by (auto simp: store_inv_def map_of_eq_None_iff)

lemma migrate_loop_inv: "store_inv acc \<Longrightarrow> store_inv (migrate_loop xs acc)"
proof (induction xs arbitrary: acc)
  case Nil
  then show ?case by simp
next
  case (Cons kv rest)
  obtain k v where kv: "kv = (k, v)" by (cases kv)
  show ?case
  proof (cases "map_of acc (get_file_identity k) = None")
    case True
    then have "store_inv (dict_set (get_file_identity k) (with_filename k v) acc)"
      using Cons.prems
      by (simp add: dict_set_new store_inv_snoc identity_idem with_filename_has)
    from Cons.IH[OF this] True show ?thesis by (simp add: kv Let_def)
  next
    case False
    with Cons.IH[OF Cons.prems] show ?thesis by (auto simp: kv Let_def)
  qed
qed

lemma migrate_inv: "store_inv (migrate db)"
  unfolding migrate_def by (rule migrate_loop_inv) (simp add: store_inv_def)

lemma migrate_loop_fix: "store_inv (acc @ xs) \<Longrightarrow> migrate_loop xs acc = acc @ xs"
proof (induction xs arbitrary: acc)
  case Nil
  then show ?case by simp
next
  case (Cons kv rest)
  obtain k v where kv: "kv = (k, v)" by (cases kv)
  from Cons.prems have fp: "get_file_identity k = k" and fn: "map_of v ''filename'' \<noteq> None"
    and new: "map_of acc k = None"
    by (auto simp: store_inv_def kv map_of_eq_None_iff)
  from Cons.prems have "store_inv ((acc @ [(k, v)]) @ rest)" by (simp add: kv)
  from Cons.IH[OF this] show ?case
    by (simp add: kv fp new dict_set_new with_filename_id[OF fn] Let_def)
qed

lemma migrate_fix: "store_inv db \<Longrightarrow> migrate db = db"
  unfolding migrate_def using migrate_loop_fix[of "[]" db] by simp

lemma migrate_idem: "migrate (migrate db) = migrate db"
  by (rule migrate_fix) (rule migrate_inv)

lemma migrate_map_of:
  "map_of (migrate db) i =
     (case find (\<lambda>(k, v). get_file_identity k = i) db of
        None \<Rightarrow> None
      | Some (k, v) \<Rightarrow> Some (with_filename k v))"
  by (simp add: migrate_def migrate_loop_map_of)

lemma migrate_keys: "fst ` set (migrate db) = (\<lambda>(k, v). get_file_identity k) ` set db"
proof -
  have "dom (map_of (migrate db)) = (\<lambda>(k, v). get_file_identity k) ` set db"
    by (auto simp: migrate_map_of dom_def find_None_iff image_iff split: option.splits prod.splits)
  then show ?thesis by (simp add: dom_map_of_conv_image_fst)
qed

lemma fold_write_chunks_files:
  "fs_files d p = Some old \<Longrightarrow>
   fs_files (fold fs_step (map (Write_chunk p) cs) d) q
     = (if q = p then Some (old @ concat cs) else fs_files d q)"
  by (induction cs arbitrary: d old) simp_all

lemma fold_write_chunks_dirs:
  "fs_dirs (fold fs_step (map (Write_chunk p) cs) d) = fs_dirs d"
  by (induction cs arbitrary: d) simp_all

lemma write_state_files:
  "fs_files (write_state e db d) q
     = (if q = SYNC_STATE_DB e then Some (concat (json_chunks e db)) else fs_files d q)"
proof -
  let ?d1 = "fs_step (Open_w (SYNC_STATE_DB e)) (fs_step (Mkdir_parents (path_parent (SYNC_STATE_DB e))) d)"
  have "fs_files ?d1 (SYNC_STATE_DB e) = Some []" by simp
  from fold_write_chunks_files[OF this, of "json_chunks e db" q]
  show ?thesis by (simp add: write_state_def save_ops_def)
qed

lemma write_state_dirs:
  "fs_dirs (write_state e db d)
     = fs_dirs d \<union> set (path_prefixes (path_parent (SYNC_STATE_DB e)))"
  by (simp add: write_state_def save_ops_def fold_write_chunks_dirs)

text \<open>
  C4. Migration re-keys every record by the identity of its old key; of two old keys
  with one identity the first in the order of the store is kept and the later ones are
  dropped; migrating a migrated store changes nothing; and every run writes the
  migrated store to disk before it scans, whether or not a key changed.
\<close>

theorem migration_rekeys_first_wins:
  "map_of (migrate db) i =
     (case find (\<lambda>(k, v). get_file_identity k = i) db of
        None \<Rightarrow> None
      | Some (k, v) \<Rightarrow> Some (with_filename k v))
   \<and> fst ` set (migrate db) = (\<lambda>(k, v). get_file_identity k) ` set db
   \<and> distinct (map fst (migrate db))
   \<and> migrate (migrate db) = migrate db
   \<and> files_db (migration_phase e db d) = migrate db
   \<and> fs_files (disk (migration_phase e db d)) (SYNC_STATE_DB e)
       = Some (concat (json_chunks e (migrate db)))
   \<and> sync_once e roots db d = scan_roots e roots (migration_phase e db d)"
  using migrate_inv[of db]
  by (simp add: migrate_map_of migrate_keys migrate_idem migration_phase_def save_state_def
      write_state_files sync_once_def store_inv_def)

text \<open>Two legacy keys of one trial and a key without a trial number: the first record
  of the trial is kept under the trial number.\<close>

theorem migration_rekeys_first_wins_witness:
  "map_of (migrate ex_legacy) ''NCT06959615''
     = Some [(''hash'', JStr ''aaa''), (''filename'', JStr ''NCT06959615.md'')]
   \<and> fst ` set (migrate ex_legacy) = {''NCT06959615'', ''notes-zh.md''}
   \<and> migrate (migrate ex_legacy) = migrate ex_legacy
   \<and> fs_files (disk (migration_phase ex_env ex_legacy ex_disk)) (SYNC_STATE_DB ex_env)
       = Some (concat (json_chunks ex_env (migrate ex_legacy)))"
proof -
  have k: "get_file_identity ''NCT06959615.md'' = ''NCT06959615''"
    "get_file_identity ''2026-01-01-NCT06959615-zh.md'' = ''NCT06959615''"
    "get_file_identity ''notes-zh.md'' = ''notes-zh.md''"
    by (simp_all add: get_file_identity_def nct_here_def is_digit_def)
  have f: "find (\<lambda>(k, v). get_file_identity k = ''NCT06959615'') ex_legacy
      = Some (''NCT06959615.md'', [(''hash'', JStr ''aaa'')])"
    by (simp add: ex_legacy_def k)
  have w: "with_filename ''NCT06959615.md'' [(''hash'', JStr ''aaa'')]
      = [(''hash'', JStr ''aaa''), (''filename'', JStr ''NCT06959615.md'')]"
    by (simp add: with_filename_def)
  have i: "(\<lambda>(k, v). get_file_identity k) ` set ex_legacy = {''NCT06959615'', ''notes-zh.md''}"
    by (simp add: ex_legacy_def k)
  note t = migration_rekeys_first_wins [of ex_legacy "''NCT06959615''" ex_env ex_disk "[]"]
  from t f w have 1: "map_of (migrate ex_legacy) ''NCT06959615''
     = Some [(''hash'', JStr ''aaa''), (''filename'', JStr ''NCT06959615.md'')]"
    by simp
  from t i have 2: "fst ` set (migrate ex_legacy) = {''NCT06959615'', ''notes-zh.md''}"
    by simp
  from t have 3: "migrate (migrate ex_legacy) = migrate ex_legacy" by blast
  from t have 4: "fs_files (disk (migration_phase ex_env ex_legacy ex_disk)) (SYNC_STATE_DB ex_env)
       = Some (concat (json_chunks ex_env (migrate ex_legacy)))" by blast
  from 1 2 3 4 show ?thesis by blast
qed

subsection \<open>Remote store client: what a call changes\<close>

lemma send_eq:
  "send e rq s = (remote e (exchanges s) rq,
                  s\<lparr>exchanges := exchanges s @ [(rq, remote e (exchanges s) rq)]\<rparr>)"
  by (simp add: send_def Let_def)

lemma api_ok_iff:
  "api_ok r \<longleftrightarrow> (\<exists>body. r = Http 200 body \<and> dict_get body ''code'' = JNum 200)"
  by (cases r) auto

lemma upload_attempts_frame:
  "upload_attempts e rq k s = (res, s1) \<Longrightarrow>
   \<exists>xs m. s1 = s\<lparr>exchanges := exchanges s @ xs,
                  sleeps := sleeps s @ replicate m (RETRY_DELAY e)\<rparr>
     \<and> map fst xs = replicate (length xs) rq
     \<and> length xs \<le> k
     \<and> list_all (\<lambda>x. \<not> api_ok (snd x)) (butlast xs)
     \<and> (res = Inr True \<longrightarrow> xs \<noteq> [] \<and> api_ok (snd (last xs)) \<and> m = length xs - 1)
     \<and> (res = Inr False \<longrightarrow> length xs = k \<and> list_all (\<lambda>x. \<not> api_ok (snd x)) xs \<and> m = k - 1)
     \<and> (res = Inl ValueError \<longrightarrow> RETRY_DELAY e < 0 \<and> xs \<noteq> [] \<and> length xs < k
           \<and> list_all (\<lambda>x. \<not> api_ok (snd x)) xs)"
proof (induction k arbitrary: s res s1)
  case 0
  then show ?case
    by (intro exI[of _ "[]"] exI[of _ 0]) auto
next
  case (Suc k)
  let ?r = "remote e (exchanges s) rq"
  let ?s1 = "s\<lparr>exchanges := exchanges s @ [(rq, ?r)]\<rparr>"
  show ?case
  proof (cases "api_ok ?r")
    case True
    with Suc.prems have "res = Inr True" "s1 = ?s1" by (simp_all add: send_eq)
    with True show ?thesis
      by (intro exI[of _ "[(rq, ?r)]"] exI[of _ 0]) simp
  next
    case notok: False
    show ?thesis
    proof (cases "0 < k")
      case False
      with notok Suc.prems have "res = Inr False" "s1 = ?s1" by (simp_all add: send_eq)
      with notok False show ?thesis
        by (intro exI[of _ "[(rq, ?r)]"] exI[of _ 0]) simp
    next
      case kpos: True
      show ?thesis
      proof (cases "RETRY_DELAY e < 0")
        case True
        with notok kpos Suc.prems have "res = Inl ValueError" "s1 = ?s1" by (simp_all add: send_eq)
        with notok kpos True show ?thesis
          by (intro exI[of _ "[(rq, ?r)]"] exI[of _ 0]) simp
      next
        case False
        let ?s2 = "?s1\<lparr>sleeps := sleeps ?s1 @ [RETRY_DELAY e]\<rparr>"
        from notok kpos False Suc.prems have "upload_attempts e rq k ?s2 = (res, s1)"
          by (simp add: send_eq)
        from Suc.IH[OF this] obtain xs m where
          x: "s1 = ?s2\<lparr>exchanges := exchanges ?s2 @ xs,
                  sleeps := sleeps ?s2 @ replicate m (RETRY_DELAY e)\<rparr>"
             "map fst xs = replicate (length xs) rq"
             "length xs \<le> k"
             "list_all (\<lambda>x. \<not> api_ok (snd x)) (butlast xs)"
             "res = Inr True \<longrightarrow> xs \<noteq> [] \<and> api_ok (snd (last xs)) \<and> m = length xs - 1"
             "res = Inr False \<longrightarrow> length xs = k \<and> list_all (\<lambda>x. \<not> api_ok (snd x)) xs \<and> m = k - 1"
             "res = Inl ValueError \<longrightarrow> RETRY_DELAY e < 0 \<and> xs \<noteq> [] \<and> length xs < k
                \<and> list_all (\<lambda>x. \<not> api_ok (snd x)) xs"
          by blast
        have "res \<noteq> Inl err" for err using x(7) False by (cases err) blast
        then have xne: "xs \<noteq> []" using x(5,6) kpos
          by (cases res) auto
        from x(1) have "s1 = s\<lparr>exchanges := exchanges s @ ((rq, ?r) # xs),
                  sleeps := sleeps s @ replicate (Suc m) (RETRY_DELAY e)\<rparr>"
          by (simp add: replicate_app_Cons_same)
        moreover have "map fst ((rq, ?r) # xs) = replicate (length ((rq, ?r) # xs)) rq"
          using x(2) by simp
        moreover have "length ((rq, ?r) # xs) \<le> Suc k" using x(3) by simp
        moreover have "list_all (\<lambda>x. \<not> api_ok (snd x)) (butlast ((rq, ?r) # xs))"
          using x(4) notok xne by simp
        moreover have "res = Inr True \<longrightarrow> (rq, ?r) # xs \<noteq> [] \<and> api_ok (snd (last ((rq, ?r) # xs)))
            \<and> Suc m = length ((rq, ?r) # xs) - 1"
          using x(5) xne by (auto simp: Suc_leI)
        moreover have "res = Inr False \<longrightarrow> length ((rq, ?r) # xs) = Suc k
            \<and> list_all (\<lambda>x. \<not> api_ok (snd x)) ((rq, ?r) # xs) \<and> Suc m = Suc k - 1"
          using x(6) notok kpos by auto
        moreover have "res = Inl ValueError \<longrightarrow> RETRY_DELAY e < 0 \<and> (rq, ?r) # xs \<noteq> []
            \<and> length ((rq, ?r) # xs) < Suc k
            \<and> list_all (\<lambda>x. \<not> api_ok (snd x)) ((rq, ?r) # xs)"
          using x(7) notok by simp
        ultimately show ?thesis by blast
      qed
    qed
  qed
qed

lemma parent_param_JNull [simp]: "parent_param JNull = JNull"
  by (simp add: parent_param_def)

lemma get_or_create_frame:
  "get_or_create_collection e name parent_id s = (cid, s1) \<Longrightarrow>
   \<exists>xs. s1 = s\<lparr>exchanges := exchanges s @ xs\<rparr>
     \<and> (map fst xs = [Collection_list name (parent_param parent_id)]
        \<or> map fst xs = [Collection_list name (parent_param parent_id),
                         Collection_create name (parent_param parent_id)])"
proof -
  let ?r = "remote e (exchanges s) (Collection_list name (parent_param parent_id))"
  let ?s1 = "s\<lparr>exchanges := exchanges s @ [(Collection_list name (parent_param parent_id), ?r)]\<rparr>"
  let ?c = "Collection_create name (parent_param parent_id)"
  let ?r2 = "remote e (exchanges ?s1) ?c"
  assume a: "get_or_create_collection e name parent_id s = (cid, s1)"
  show ?thesis
  proof (cases "?r = Transport_error \<or> lookup_collection name ?r \<noteq> None")
    case True
    with a have "s1 = ?s1"
      by (auto simp: get_or_create_collection_def send_eq split: response.splits option.splits)
    then show ?thesis by (intro exI[of _ "[(Collection_list name (parent_param parent_id), ?r)]"]) simp
  next
    case False
    with a have "s1 = ?s1\<lparr>exchanges := exchanges ?s1 @ [(?c, ?r2)]\<rparr>"
      by (auto simp: get_or_create_collection_def send_eq split: response.splits option.splits)
    then show ?thesis
      by (intro exI[of _ "[(Collection_list name (parent_param parent_id), ?r), (?c, ?r2)]"]) simp
  qed
qed

lemma upload_file_frame:
  "upload_file e fn bytes cid s = (res, s1) \<Longrightarrow>
   \<exists>xs m. s1 = s\<lparr>exchanges := exchanges s @ xs,
                  sleeps := sleeps s @ replicate m (RETRY_DELAY e)\<rparr>
     \<and> map fst xs = replicate (length xs) (Create_localFile fn bytes cid)
     \<and> length xs \<le> nat (RETRY_TIMES e)
     \<and> list_all (\<lambda>x. \<not> api_ok (snd x)) (butlast xs)
     \<and> (res = Inr True \<longrightarrow> xs \<noteq> [] \<and> api_ok (snd (last xs)) \<and> m = length xs - 1)
     \<and> (res = Inr False \<longrightarrow> length xs = nat (RETRY_TIMES e)
           \<and> list_all (\<lambda>x. \<not> api_ok (snd x)) xs \<and> m = nat (RETRY_TIMES e) - 1)
     \<and> (res = Inl ValueError \<longrightarrow> RETRY_DELAY e < 0 \<and> xs \<noteq> [] \<and> length xs < nat (RETRY_TIMES e)
           \<and> list_all (\<lambda>x. \<not> api_ok (snd x)) xs)"
  unfolding upload_file_def by (rule upload_attempts_frame)

lemma resolve_collection_cached:
  "map_of (collection_cache s) n = Some c \<Longrightarrow> resolve_collection e n s = (c, s)"
  by (simp add: resolve_collection_def)

lemma resolve_collection_frame:
  assumes "resolve_collection e n s = (cid, s1)"
  shows "\<exists>xs. s1 = s\<lparr>exchanges := exchanges s @ xs,
                     collection_cache :=
                       (if truthy cid \<and> map_of (collection_cache s) n = None
                        then dict_set n cid (collection_cache s) else collection_cache s)\<rparr>
           \<and> (if map_of (collection_cache s) n = None
              then (map fst xs = [Collection_list n JNull]
                    \<or> map fst xs = [Collection_list n JNull, Collection_create n JNull])
                   \<and> cid = fst (get_or_create_collection e n JNull s)
              else xs = [] \<and> map_of (collection_cache s) n = Some cid)"
proof (cases "map_of (collection_cache s) n")
  case (Some c)
  with assms have "cid = c" "s1 = s" by (simp_all add: resolve_collection_def)
  with Some show ?thesis by (intro exI[of _ "[]"]) simp
next
  case None
  obtain c t where g: "get_or_create_collection e n JNull s = (c, t)"
    by (cases "get_or_create_collection e n JNull s")
  from get_or_create_frame[OF g] obtain xs where
    xs: "t = s\<lparr>exchanges := exchanges s @ xs\<rparr>"
        "map fst xs = [Collection_list n JNull]
         \<or> map fst xs = [Collection_list n JNull, Collection_create n JNull]"
    by auto
  from assms None g have "cid = c"
    and "s1 = (if truthy c then t\<lparr>collection_cache := dict_set n c (collection_cache t)\<rparr> else t)"
    by (auto simp: resolve_collection_def)
  with xs None g show ?thesis
    by (intro exI[of _ xs]) auto
qed

lemma upload_needed_unfold:
  assumes "resolve_collection e (collection_name_of e root ent) s = (cid, s1)"
  shows "upload_needed e root ent s =
          (if \<not> truthy cid then s1
           else (case upload_file e (filename_of root ent) (content ent) cid s1 of
                   (Inl err, s2) \<Rightarrow> s2\<lparr>crashed := Some err\<rparr>
                 | (Inr True, s2) \<Rightarrow>
                     record_upload e root ent cid
                       (state_truthy (map_of (files_db s) (get_file_identity (filename_of root ent)))) s2
                 | (Inr False, s2) \<Rightarrow> s2))"
  using assms by (simp add: upload_needed_def Let_def)

text \<open>Everything a file can do to the state, field by field.\<close>

lemma upload_needed_effect:
  fixes e root ent s
  defines "n \<equiv> collection_name_of e root ent"
      and "fn \<equiv> filename_of root ent"
      and "s' \<equiv> upload_needed e root ent s"
  shows "\<exists>cid xs ys m.
      exchanges s' = exchanges s @ xs @ ys
    \<and> sleeps s' = sleeps s @ replicate m (RETRY_DELAY e)
    \<and> skipped s' = skipped s
    \<and> collection_cache s' =
        (if truthy cid \<and> map_of (collection_cache s) n = None
         then dict_set n cid (collection_cache s) else collection_cache s)
    \<and> (if map_of (collection_cache s) n = None
        then (map fst xs = [Collection_list n JNull]
              \<or> map fst xs = [Collection_list n JNull, Collection_create n JNull])
             \<and> cid = fst (get_or_create_collection e n JNull s)
        else xs = [] \<and> map_of (collection_cache s) n = Some cid)
    \<and> map fst ys = replicate (length ys) (Create_localFile fn (content ent) cid)
    \<and> length ys \<le> nat (RETRY_TIMES e)
    \<and> list_all (\<lambda>x. \<not> api_ok (snd x)) (butlast ys)
    \<and> (truthy cid \<or> ys = [])
    \<and> ((ys \<noteq> [] \<and> api_ok (snd (last ys))
         \<and> files_db s' = dict_set (get_file_identity fn)
                           (new_record e root ent cid (s\<lparr>exchanges := exchanges s @ xs @ ys\<rparr>))
                           (files_db s)
         \<and> disk s' = write_state e (files_db s') (disk s)
         \<and> added s' = (if state_truthy (map_of (files_db s) (get_file_identity fn))
                        then added s else added s + 1)
         \<and> modified s' = (if state_truthy (map_of (files_db s) (get_file_identity fn))
                           then modified s + 1 else modified s)
         \<and> crashed s' = crashed s)
       \<or> (list_all (\<lambda>x. \<not> api_ok (snd x)) ys
          \<and> files_db s' = files_db s \<and> disk s' = disk s
          \<and> added s' = added s \<and> modified s' = modified s
          \<and> (crashed s' = crashed s \<or> crashed s' = Some ValueError \<and> RETRY_DELAY e < 0 \<and> ys \<noteq> [])))"
proof -
  obtain cid s1 where r: "resolve_collection e n s = (cid, s1)"
    by (cases "resolve_collection e n s")
  from resolve_collection_frame[OF r] obtain xs where
    s1: "s1 = s\<lparr>exchanges := exchanges s @ xs,
                collection_cache :=
                  (if truthy cid \<and> map_of (collection_cache s) n = None
                   then dict_set n cid (collection_cache s) else collection_cache s)\<rparr>"
    and xs: "if map_of (collection_cache s) n = None
              then (map fst xs = [Collection_list n JNull]
                    \<or> map fst xs = [Collection_list n JNull, Collection_create n JNull])
                   \<and> cid = fst (get_or_create_collection e n JNull s)
              else xs = [] \<and> map_of (collection_cache s) n = Some cid"
    by blast
  note unf = upload_needed_unfold[OF r[unfolded n_def], folded s'_def fn_def]
  show ?thesis
  proof (cases "truthy cid")
    case False
    with unf have "s' = s1" by simp
    with s1 xs False show ?thesis
      by (intro exI[of _ cid] exI[of _ xs] exI[of _ "[]"] exI[of _ 0]) simp
  next
    case True
    obtain res s2 where u: "upload_file e fn (content ent) cid s1 = (res, s2)"
      by (cases "upload_file e fn (content ent) cid s1")
    from upload_file_frame[OF u] obtain ys m where
      s2: "s2 = s1\<lparr>exchanges := exchanges s1 @ ys,
                  sleeps := sleeps s1 @ replicate m (RETRY_DELAY e)\<rparr>"
      and ys: "map fst ys = replicate (length ys) (Create_localFile fn (content ent) cid)"
        "length ys \<le> nat (RETRY_TIMES e)"
        "list_all (\<lambda>x. \<not> api_ok (snd x)) (butlast ys)"
      and ok: "res = Inr True \<longrightarrow> ys \<noteq> [] \<and> api_ok (snd (last ys))"
      and bad: "res = Inr False \<longrightarrow> list_all (\<lambda>x. \<not> api_ok (snd x)) ys"
      and err: "res = Inl ValueError \<longrightarrow> RETRY_DELAY e < 0 \<and> ys \<noteq> []
                  \<and> list_all (\<lambda>x. \<not> api_ok (snd x)) ys"
      by blast
    have s2x: "s2\<lparr>exchanges := exchanges s @ xs @ ys\<rparr> = s2"
      "s\<lparr>exchanges := exchanges s @ xs @ ys\<rparr>\<lparr>exchanges := exchanges s2\<rparr> = s\<lparr>exchanges := exchanges s @ xs @ ys\<rparr>"
      using s1 s2 by simp_all
    have nr: "new_record e root ent cid s2 = new_record e root ent cid (s\<lparr>exchanges := exchanges s @ xs @ ys\<rparr>)"
      using s1 s2 by (simp add: new_record_def)
    consider (T) "res = Inr True" | (F) "res = Inr False" | (E) "res = Inl ValueError"
      by (cases res) (auto intro: error.exhaust)
    then show ?thesis
    proof cases
      case T
      with unf True u have "s' = record_upload e root ent cid
          (state_truthy (map_of (files_db s) (get_file_identity fn))) s2" by simp
      with s1 s2 xs ys ok T True nr show ?thesis
        by (intro exI[of _ cid] exI[of _ xs] exI[of _ ys] exI[of _ m])
           (simp add: record_upload_def save_state_def fn_def)
    next
      case F
      with unf True u have "s' = s2" by simp
      with s1 s2 xs ys bad F True show ?thesis
        by (intro exI[of _ cid] exI[of _ xs] exI[of _ ys] exI[of _ m]) simp
    next
      case E
      with unf True u have "s' = s2\<lparr>crashed := Some ValueError\<rparr>" by simp
      then show ?thesis using s1 s2 xs ys err E True
        by (intro exI[of _ cid] exI[of _ xs] exI[of _ ys] exI[of _ m]) simp
    qed
  qed
qed

subsection \<open>One file at a time\<close>

lemma process_file_cases:
  "process_file e root ent s =
     (if \<not> marker_ok (filename_of root ent) then s
      else if \<not> date_ok e (filename_of root ent)
              \<or> unchanged (map_of (files_db s) (get_file_identity (filename_of root ent)))
                   (md5_hexdigest e (content ent))
      then s\<lparr>skipped := skipped s + 1\<rparr>
      else upload_needed e root ent s)"
  by (simp add: process_file_def marker_ok_def date_ok_def Let_def)


text \<open>
  C2. When the upload of a file fails (every attempt is used up), the state store, the
  file on disk and the counts of added and modified files are what they were. A file
  changes a record only right after an upload of its bytes that the remote accepted:
  then the record of its identity holds the digest of exactly those bytes, and the
  store is written to disk.
\<close>

theorem failed_upload_keeps_record:
  "(resolve_collection e (collection_name_of e root ent) s = (cid, s1) \<and> truthy cid
      \<and> upload_file e (filename_of root ent) (content ent) cid s1 = (Inr False, s2)
     \<longrightarrow> upload_needed e root ent s = s2
         \<and> files_db s2 = files_db s \<and> disk s2 = disk s
         \<and> added s2 = added s \<and> modified s2 = modified s)
   \<and> ((files_db (process_file e root ent s) = files_db s
        \<and> disk (process_file e root ent s) = disk s
        \<and> added (process_file e root ent s) = added s
        \<and> modified (process_file e root ent s) = modified s)
      \<or> (\<exists>cid rs r.
            exchanges (process_file e root ent s) \<noteq> []
          \<and> last (exchanges (process_file e root ent s))
              = (Create_localFile (filename_of root ent) (content ent) cid, rs)
          \<and> api_ok rs
          \<and> files_db (process_file e root ent s)
              = dict_set (get_file_identity (filename_of root ent)) r (files_db s)
          \<and> dict_get r ''hash'' = JStr (md5_hexdigest e (content ent))
          \<and> disk (process_file e root ent s)
              = write_state e (files_db (process_file e root ent s)) (disk s)
          \<and> added (process_file e root ent s) + modified (process_file e root ent s)
              = Suc (added s + modified s)))"
proof (rule conjI, rule impI)
  assume a: "resolve_collection e (collection_name_of e root ent) s = (cid, s1) \<and> truthy cid
      \<and> upload_file e (filename_of root ent) (content ent) cid s1 = (Inr False, s2)"
  then have u: "upload_needed e root ent s = s2"
    by (simp add: upload_needed_unfold)
  from a resolve_collection_frame[of e _ s cid s1] obtain xs where
    "s1 = s\<lparr>exchanges := exchanges s @ xs,
            collection_cache :=
              (if truthy cid \<and> map_of (collection_cache s) (collection_name_of e root ent) = None
               then dict_set (collection_name_of e root ent) cid (collection_cache s)
               else collection_cache s)\<rparr>"
    by blast
  moreover from a upload_file_frame[of e _ _ cid s1 "Inr False" s2] obtain ys m where
    "s2 = s1\<lparr>exchanges := exchanges s1 @ ys, sleeps := sleeps s1 @ replicate m (RETRY_DELAY e)\<rparr>"
    by blast
  ultimately show "upload_needed e root ent s = s2
         \<and> files_db s2 = files_db s \<and> disk s2 = disk s
         \<and> added s2 = added s \<and> modified s2 = modified s"
    using u by simp
next
  let ?s' = "process_file e root ent s"
  let ?u = "upload_needed e root ent s"
  let ?fn = "filename_of root ent"
  show "(files_db ?s' = files_db s \<and> disk ?s' = disk s \<and> added ?s' = added s \<and> modified ?s' = modified s)
      \<or> (\<exists>cid rs r.
            exchanges ?s' \<noteq> []
          \<and> last (exchanges ?s') = (Create_localFile ?fn (content ent) cid, rs)
          \<and> api_ok rs
          \<and> files_db ?s' = dict_set (get_file_identity ?fn) r (files_db s)
          \<and> dict_get r ''hash'' = JStr (md5_hexdigest e (content ent))
          \<and> disk ?s' = write_state e (files_db ?s') (disk s)
          \<and> added ?s' + modified ?s' = Suc (added s + modified s))"
  proof (cases "?s' = ?u")
    case False
    then show ?thesis by (auto simp: process_file_cases split: if_splits)
  next
    case True
    from upload_needed_effect[of e root ent s] obtain cid xs ys m where
      ex: "exchanges ?u = exchanges s @ xs @ ys"
      and ys: "map fst ys = replicate (length ys) (Create_localFile ?fn (content ent) cid)"
      and alt: "(ys \<noteq> [] \<and> api_ok (snd (last ys))
         \<and> files_db ?u = dict_set (get_file_identity ?fn)
                           (new_record e root ent cid (s\<lparr>exchanges := exchanges s @ xs @ ys\<rparr>))
                           (files_db s)
         \<and> disk ?u = write_state e (files_db ?u) (disk s)
         \<and> added ?u = (if state_truthy (map_of (files_db s) (get_file_identity ?fn))
                        then added s else added s + 1)
         \<and> modified ?u = (if state_truthy (map_of (files_db s) (get_file_identity ?fn))
                           then modified s + 1 else modified s)
         \<and> crashed ?u = crashed s)
       \<or> (list_all (\<lambda>x. \<not> api_ok (snd x)) ys
          \<and> files_db ?u = files_db s \<and> disk ?u = disk s
          \<and> added ?u = added s \<and> modified ?u = modified s
          \<and> (crashed ?u = crashed s \<or> crashed ?u = Some ValueError \<and> RETRY_DELAY e < 0 \<and> ys \<noteq> []))"
      by blast
    from alt consider
      (ok) "ys \<noteq> []" "api_ok (snd (last ys))"
         "files_db ?u = dict_set (get_file_identity ?fn)
                           (new_record e root ent cid (s\<lparr>exchanges := exchanges s @ xs @ ys\<rparr>))
                           (files_db s)"
         "disk ?u = write_state e (files_db ?u) (disk s)"
         "added ?u = (if state_truthy (map_of (files_db s) (get_file_identity ?fn))
                        then added s else added s + 1)"
         "modified ?u = (if state_truthy (map_of (files_db s) (get_file_identity ?fn))
                           then modified s + 1 else modified s)"
      | (bad) "files_db ?u = files_db s" "disk ?u = disk s"
          "added ?u = added s" "modified ?u = modified s"
      by blast
    then show ?thesis
    proof cases
      case ok
      note ne = ok(1) and db = ok(3) and dk = ok(4) and ad = ok(5) and mo = ok(6)
      from ne ys have "fst (last ys) = Create_localFile ?fn (content ent) cid"
        by (metis last_map last_replicate length_0_conv)
      then have l: "last (exchanges ?u) = (Create_localFile ?fn (content ent) cid, snd (last ys))"
        using ex ne by (simp add: prod_eq_iff)
      have h: "dict_get (new_record e root ent cid (s\<lparr>exchanges := exchanges s @ xs @ ys\<rparr>)) ''hash''
                = JStr (md5_hexdigest e (content ent))"
        by (simp add: new_record_def dict_get_def dict_get_default_def)
      from ex ne have "exchanges ?u \<noteq> []" by simp
      with l ok(2) db dk ad mo h True show ?thesis
        by (intro disjI2 exI[of _ cid] exI[of _ "snd (last ys)"]
              exI[of _ "new_record e root ent cid (s\<lparr>exchanges := exchanges s @ xs @ ys\<rparr>)"]) simp
    next
      case bad
      with True show ?thesis by simp
    qed
  qed
qed

subsection \<open>The whole run\<close>

lemma scan_pairs_crashed: "crashed s \<noteq> None \<Longrightarrow> scan_pairs e ps s = s"
  by (cases ps) auto

lemma scan_pairs_append: "scan_pairs e (ps @ qs) s = scan_pairs e qs (scan_pairs e ps s)"
proof (induction ps arbitrary: s)
  case Nil
  then show ?case by simp
next
  case (Cons p ps)
  obtain r f where p: "p = (r, f)" by (cases p)
  show ?case
    by (cases "crashed s = None") (simp_all add: p Cons.IH scan_pairs_crashed)
qed

lemma scan_files_pairs: "scan_files e root ents s = scan_pairs e (map (Pair root) ents) s"
  by (induction ents arbitrary: s) simp_all

lemma scan_roots_pairs: "scan_roots e roots s = scan_pairs e (work_list roots) s"
proof (induction roots arbitrary: s)
  case Nil
  then show ?case by (simp add: work_list_def)
next
  case (Cons root roots)
  have w: "work_list (root # roots)
      = (if root_exists root then map (Pair root) (all_files root) else []) @ work_list roots"
    by (simp add: work_list_def)
  show ?case
  proof (cases "crashed s = None")
    case True
    then show ?thesis
      by (simp add: w scan_pairs_append scan_files_pairs Cons.IH)
  next
    case False
    then show ?thesis by (simp add: scan_pairs_crashed)
  qed
qed

lemma sync_once_pairs:
  "sync_once e roots db d = scan_pairs e (work_list roots) (migration_phase e db d)"
  by (simp add: sync_once_def scan_roots_pairs)

lemma scan_pairs_invariant:
  assumes "P s" and "\<And>r f t. (r, f) \<in> set ps \<Longrightarrow> P t \<Longrightarrow> P (process_file e r f t)"
  shows "P (scan_pairs e ps s)"
  using assms
proof (induction ps arbitrary: s)
  case Nil
  then show ?case by simp
next
  case (Cons p ps)
  obtain r f where p: "p = (r, f)" by (cases p)
  show ?case
  proof (cases "crashed s = None")
    case True
    have "P (process_file e r f s)" using Cons.prems p by simp
    then have "P (scan_pairs e ps (process_file e r f s))"
      using Cons.IH Cons.prems(2) by simp
    with True show ?thesis by (simp add: p)
  next
    case False
    with Cons.prems(1) show ?thesis by (simp add: p)
  qed
qed

lemma uploaded_names_append [simp]:
  "uploaded_names (xs @ ys) = uploaded_names xs @ uploaded_names ys"
  by (simp add: uploaded_names_def List.map_filter_def)

lemma uploaded_names_Nil [simp]: "uploaded_names [] = []"
  by (simp add: uploaded_names_def map_filter_simps)

lemma uploaded_names_uploads:
  "map fst ys = replicate (length ys) (Create_localFile fn bytes cid)
   \<Longrightarrow> uploaded_names ys = replicate (length ys) fn"
proof (induction ys)
  case Nil
  then show ?case by simp
next
  case (Cons y ys)
  then obtain resp where "y = (Create_localFile fn bytes cid, resp)"
    by (cases y) auto
  with Cons show ?case by (simp add: uploaded_names_def map_filter_simps)
qed

lemma uploaded_names_resolution:
  "map fst xs = [Collection_list n p] \<or> map fst xs = [Collection_list n p, Collection_create n q]
   \<Longrightarrow> uploaded_names xs = []"
  by (auto simp: uploaded_names_def map_filter_simps map_eq_Cons_conv)

lemma process_file_uploads:
  "\<exists>k. uploaded_names (exchanges (process_file e root ent s))
         = uploaded_names (exchanges s) @ replicate k (filename_of root ent)
       \<and> (k = 0 \<or> marker_ok (filename_of root ent))"
proof (cases "process_file e root ent s = upload_needed e root ent s
              \<and> marker_ok (filename_of root ent)")
  case False
  then have "exchanges (process_file e root ent s) = exchanges s"
    by (auto simp: process_file_cases split: if_splits)
  then show ?thesis by (intro exI[of _ 0]) simp
next
  case True
  from upload_needed_effect[of e root ent s] obtain cid xs ys where
    ex: "exchanges (upload_needed e root ent s) = exchanges s @ xs @ ys"
    and xs: "if map_of (collection_cache s) (collection_name_of e root ent) = None
        then (map fst xs = [Collection_list (collection_name_of e root ent) JNull]
              \<or> map fst xs = [Collection_list (collection_name_of e root ent) JNull,
                               Collection_create (collection_name_of e root ent) JNull])
             \<and> cid = fst (get_or_create_collection e (collection_name_of e root ent) JNull s)
        else xs = [] \<and> map_of (collection_cache s) (collection_name_of e root ent) = Some cid"
    and ys: "map fst ys = replicate (length ys) (Create_localFile (filename_of root ent) (content ent) cid)"
    by blast
  from xs have "uploaded_names xs = []"
    by (auto simp: uploaded_names_resolution split: if_splits)
  with ex True uploaded_names_uploads[OF ys] show ?thesis
    by (intro exI[of _ "length ys"]) simp
qed

text \<open>
  C9. A file whose name lacks the marker \<^verbatim>\<open>-zh\<close> is never uploaded, in either filter
  mode: the loop leaves the state exactly as it was for such a file (no identity, no
  digest, no classification, no request), and every upload request of a run carries a
  name with the marker.
\<close>

theorem unmarked_file_never_uploaded:
  "(\<not> contains ''-zh'' (filename_of root ent) \<longrightarrow> process_file e root ent s = s)
   \<and> list_all (contains ''-zh'') (uploaded_names (exchanges (sync_once e roots db d)))"
proof
  show "\<not> contains ''-zh'' (filename_of root ent) \<longrightarrow> process_file e root ent s = s"
    by (simp add: process_file_cases marker_ok_def)
next
  let ?P = "\<lambda>t::sync_state. list_all (contains ''-zh'') (uploaded_names (exchanges t))"
  have "?P (scan_pairs e (work_list roots) (migration_phase e db d))"
  proof (rule scan_pairs_invariant)
    show "?P (migration_phase e db d)"
      by (simp add: migration_phase_def save_state_def)
  next
    fix r f t
    assume "?P t"
    moreover obtain k where
      "uploaded_names (exchanges (process_file e r f t))
         = uploaded_names (exchanges t) @ replicate k (filename_of r f)"
      "k = 0 \<or> marker_ok (filename_of r f)"
      using process_file_uploads[of e r f t] by blast
    ultimately show "?P (process_file e r f t)"
      by (auto simp: marker_ok_def list_all_iff)
  qed
  then show "list_all (contains ''-zh'') (uploaded_names (exchanges (sync_once e roots db d)))"
    by (simp add: sync_once_pairs)
qed

lemma resolution_calls_append [simp]:
  "resolution_calls n (xs @ ys) = resolution_calls n xs + resolution_calls n ys"
  by (simp add: resolution_calls_def)

lemma resolution_calls_Nil [simp]: "resolution_calls n [] = 0"
  by (simp add: resolution_calls_def)

lemma resolution_calls_uploads:
  "map fst ys = replicate (length ys) (Create_localFile fn bytes cid)
   \<Longrightarrow> resolution_calls n ys = 0"
proof (induction ys)
  case Nil
  then show ?case by simp
next
  case (Cons y ys)
  then obtain resp where "y = (Create_localFile fn bytes cid, resp)"
    by (cases y) auto
  with Cons show ?case by (simp add: resolution_calls_def)
qed

lemma resolution_calls_resolution:
  "map fst xs = [Collection_list m p] \<or> map fst xs = [Collection_list m p, Collection_create m q]
   \<Longrightarrow> resolution_calls n xs = (if m = n then 1 else 0)"
  by (auto simp: resolution_calls_def map_eq_Cons_conv)

lemma dict_set_map_of_eq: "map_of (dict_set k v xs) k' = (if k' = k then Some v else map_of xs k')"
  by (simp add: dict_set_map_of)

text \<open>What one file adds to the resolution calls and the cache.\<close>

lemma process_file_resolution:
  fixes e root ent s
  defines "m \<equiv> collection_name_of e root ent"
      and "s' \<equiv> process_file e root ent s"
  shows "(resolution_calls n (exchanges s') = resolution_calls n (exchanges s)
          \<and> (map_of (collection_cache s) n \<noteq> None \<longrightarrow> map_of (collection_cache s') n \<noteq> None))
       \<or> (n = m \<and> map_of (collection_cache s) m = None
          \<and> resolution_calls n (exchanges s') = Suc (resolution_calls n (exchanges s))
          \<and> (truthy (fst (get_or_create_collection e m JNull s))
               \<longrightarrow> map_of (collection_cache s') m \<noteq> None))"
proof (cases "s' = upload_needed e root ent s")
  case False
  then have "exchanges s' = exchanges s" "collection_cache s' = collection_cache s"
    by (auto simp: s'_def process_file_cases split: if_splits)
  then show ?thesis by simp
next
  case True
  from upload_needed_effect[of e root ent s] obtain cid xs ys where
    ex: "exchanges s' = exchanges s @ xs @ ys"
    and cc: "collection_cache s' =
        (if truthy cid \<and> map_of (collection_cache s) m = None
         then dict_set m cid (collection_cache s) else collection_cache s)"
    and xs: "if map_of (collection_cache s) m = None
        then (map fst xs = [Collection_list m JNull]
              \<or> map fst xs = [Collection_list m JNull, Collection_create m JNull])
             \<and> cid = fst (get_or_create_collection e m JNull s)
        else xs = [] \<and> map_of (collection_cache s) m = Some cid"
    and ys: "map fst ys = replicate (length ys) (Create_localFile (filename_of root ent) (content ent) cid)"
    unfolding True m_def by blast
  note y0 = resolution_calls_uploads[OF ys, of n]
  show ?thesis
  proof (cases "map_of (collection_cache s) m = None")
    case hit: False
    with xs cc ex y0 show ?thesis by simp
  next
    case miss: True
    with xs have x1: "resolution_calls n xs = (if m = n then 1 else 0)"
      and c: "cid = fst (get_or_create_collection e m JNull s)"
      using resolution_calls_resolution[of xs m JNull JNull n] by auto
    show ?thesis
    proof (cases "n = m")
      case True
      with ex x1 y0 cc c miss show ?thesis by (simp add: dict_set_map_of_eq)
    next
      case False
      with ex x1 y0 cc show ?thesis by (auto simp: dict_set_map_of_eq)
    qed
  qed
qed

text \<open>
  C7 (as the code has it). When find-or-create returns no usable id for a grouping
  name, the file is skipped: nothing is uploaded, recorded, counted or cached. The
  failure is not remembered, so the next file of that grouping calls find-or-create
  again. Only an id that was obtained is cached, and a cached name costs no request:
  when every find-or-create call of a run obtains an id, a run makes at most one such
  call for each grouping name.
\<close>

theorem collection_resolution_memo:
  "(\<not> truthy (fst (resolve_collection e (collection_name_of e root ent) s))
      \<longrightarrow> upload_needed e root ent s = snd (resolve_collection e (collection_name_of e root ent) s)
          \<and> files_db (upload_needed e root ent s) = files_db s
          \<and> disk (upload_needed e root ent s) = disk s
          \<and> added (upload_needed e root ent s) = added s
          \<and> modified (upload_needed e root ent s) = modified s
          \<and> skipped (upload_needed e root ent s) = skipped s
          \<and> collection_cache (upload_needed e root ent s) = collection_cache s
          \<and> uploaded_names (exchanges (upload_needed e root ent s)) = uploaded_names (exchanges s))
   \<and> (map_of (collection_cache s) n = None
        \<and> \<not> truthy (fst (get_or_create_collection e n JNull s))
      \<longrightarrow> map_of (collection_cache (snd (resolve_collection e n s))) n = None
          \<and> resolution_calls n (exchanges (snd (resolve_collection e n s)))
              = Suc (resolution_calls n (exchanges s)))
   \<and> (map_of (collection_cache s) n = Some cid \<longrightarrow> resolve_collection e n s = (cid, s))
   \<and> (resolution_always_succeeds e
      \<longrightarrow> resolution_calls n (exchanges (sync_once e roots db d)) \<le> 1)"
proof (intro conjI)
  let ?m = "collection_name_of e root ent"
  show "\<not> truthy (fst (resolve_collection e ?m s))
      \<longrightarrow> upload_needed e root ent s = snd (resolve_collection e ?m s)
          \<and> files_db (upload_needed e root ent s) = files_db s
          \<and> disk (upload_needed e root ent s) = disk s
          \<and> added (upload_needed e root ent s) = added s
          \<and> modified (upload_needed e root ent s) = modified s
          \<and> skipped (upload_needed e root ent s) = skipped s
          \<and> collection_cache (upload_needed e root ent s) = collection_cache s
          \<and> uploaded_names (exchanges (upload_needed e root ent s)) = uploaded_names (exchanges s)"
  proof
    assume f: "\<not> truthy (fst (resolve_collection e ?m s))"
    obtain c s1 where r: "resolve_collection e ?m s = (c, s1)"
      by (cases "resolve_collection e ?m s")
    with f have nt: "\<not> truthy c" by simp
    from resolve_collection_frame[OF r] nt obtain xs where
      s1: "s1 = s\<lparr>exchanges := exchanges s @ xs, collection_cache := collection_cache s\<rparr>"
      and xs: "if map_of (collection_cache s) ?m = None
              then (map fst xs = [Collection_list ?m JNull]
                    \<or> map fst xs = [Collection_list ?m JNull, Collection_create ?m JNull])
                   \<and> c = fst (get_or_create_collection e ?m JNull s)
              else xs = [] \<and> map_of (collection_cache s) ?m = Some c"
      by auto
    from xs have "uploaded_names xs = []"
      by (auto simp: uploaded_names_resolution split: if_splits)
    moreover from upload_needed_unfold[OF r] nt have "upload_needed e root ent s = s1" by simp
    ultimately show "upload_needed e root ent s = snd (resolve_collection e ?m s)
          \<and> files_db (upload_needed e root ent s) = files_db s
          \<and> disk (upload_needed e root ent s) = disk s
          \<and> added (upload_needed e root ent s) = added s
          \<and> modified (upload_needed e root ent s) = modified s
          \<and> skipped (upload_needed e root ent s) = skipped s
          \<and> collection_cache (upload_needed e root ent s) = collection_cache s
          \<and> uploaded_names (exchanges (upload_needed e root ent s)) = uploaded_names (exchanges s)"
      using r s1 by simp
  qed
next
  show "map_of (collection_cache s) n = None
        \<and> \<not> truthy (fst (get_or_create_collection e n JNull s))
      \<longrightarrow> map_of (collection_cache (snd (resolve_collection e n s))) n = None
          \<and> resolution_calls n (exchanges (snd (resolve_collection e n s)))
              = Suc (resolution_calls n (exchanges s))"
  proof
    assume a: "map_of (collection_cache s) n = None
        \<and> \<not> truthy (fst (get_or_create_collection e n JNull s))"
    obtain c s1 where r: "resolve_collection e n s = (c, s1)"
      by (cases "resolve_collection e n s")
    from resolve_collection_frame[OF r] a obtain xs where
      s1: "s1 = s\<lparr>exchanges := exchanges s @ xs,
                   collection_cache :=
                       (if truthy c \<and> map_of (collection_cache s) n = None
                        then dict_set n c (collection_cache s) else collection_cache s)\<rparr>"
      and xs: "map fst xs = [Collection_list n JNull]
                    \<or> map fst xs = [Collection_list n JNull, Collection_create n JNull]"
      and c: "c = fst (get_or_create_collection e n JNull s)"
      by auto
    from resolution_calls_resolution[OF xs, of n] s1 a c r
    show "map_of (collection_cache (snd (resolve_collection e n s))) n = None
          \<and> resolution_calls n (exchanges (snd (resolve_collection e n s)))
              = Suc (resolution_calls n (exchanges s))"
      by simp
  qed
next
  show "map_of (collection_cache s) n = Some cid \<longrightarrow> resolve_collection e n s = (cid, s)"
    by (simp add: resolve_collection_cached)
next
  show "resolution_always_succeeds e
      \<longrightarrow> resolution_calls n (exchanges (sync_once e roots db d)) \<le> 1"
  proof
    assume h: "resolution_always_succeeds e"
    let ?J = "\<lambda>t::sync_state. resolution_calls n (exchanges t) \<le> 1
        \<and> (map_of (collection_cache t) n = None \<longrightarrow> resolution_calls n (exchanges t) = 0)"
    have "?J (scan_pairs e (work_list roots) (migration_phase e db d))"
    proof (rule scan_pairs_invariant)
      show "?J (migration_phase e db d)"
        by (simp add: migration_phase_def save_state_def)
    next
      fix r f t
      assume j: "?J t"
      from h have "truthy (fst (get_or_create_collection e (collection_name_of e r f) JNull t))"
        by (simp add: resolution_always_succeeds_def)
      with process_file_resolution[of n e r f t] j show "?J (process_file e r f t)"
        by auto
    qed
    then show "resolution_calls n (exchanges (sync_once e roots db d)) \<le> 1"
      by (simp add: sync_once_pairs)
  qed
qed

subsection \<open>Retries\<close>

lemma upload_attempts_all_fail:
  "(\<And>h. \<not> api_ok (remote e h rq)) \<Longrightarrow> 0 \<le> RETRY_DELAY e \<Longrightarrow>
   fst (upload_attempts e rq k s) = Inr False"
proof (induction k arbitrary: s)
  case 0
  then show ?case by simp
next
  case (Suc k)
  then show ?case by (simp add: send_eq)
qed


subsection \<open>Saving the state\<close>

lemma path_prefixes_self: "p \<in> set (path_prefixes p)"
  by (induction p) auto

lemma interrupted_save_2:
  "interrupted_save 2 e db d
     = fs_step (Open_w (SYNC_STATE_DB e)) (fs_step (Mkdir_parents (path_parent (SYNC_STATE_DB e))) d)"
  by (simp add: interrupted_save_def save_ops_def numeral_2_eq_2)

text \<open>
  C5 (as the code has it). A completed save makes the parent directory with its
  ancestors and leaves the whole encoded mapping in the state file, every other file
  untouched. The save is not atomic: it opens the state file itself for writing, so
  after its second step the file is empty, and no other file has been written.
\<close>

theorem save_rewrites_in_place:
  "fs_files (write_state e db d) (SYNC_STATE_DB e) = Some (concat (json_chunks e db))
   \<and> (\<forall>p. p \<noteq> SYNC_STATE_DB e \<longrightarrow> fs_files (write_state e db d) p = fs_files d p)
   \<and> path_parent (SYNC_STATE_DB e) \<in> fs_dirs (write_state e db d)
   \<and> set (path_prefixes (path_parent (SYNC_STATE_DB e))) \<subseteq> fs_dirs (write_state e db d)
   \<and> fs_dirs d \<subseteq> fs_dirs (write_state e db d)
   \<and> write_state e db d = interrupted_save (length (save_ops e db)) e db d
   \<and> fs_files (interrupted_save 2 e db d) (SYNC_STATE_DB e) = Some []
   \<and> (\<forall>p. p \<noteq> SYNC_STATE_DB e \<longrightarrow> fs_files (interrupted_save 2 e db d) p = fs_files d p)"
proof (intro conjI)
  show "fs_files (write_state e db d) (SYNC_STATE_DB e) = Some (concat (json_chunks e db))"
    by (simp add: write_state_files)
  show "\<forall>p. p \<noteq> SYNC_STATE_DB e \<longrightarrow> fs_files (write_state e db d) p = fs_files d p"
    by (simp add: write_state_files)
  show "path_parent (SYNC_STATE_DB e) \<in> fs_dirs (write_state e db d)"
    by (simp add: write_state_dirs path_prefixes_self)
  show "set (path_prefixes (path_parent (SYNC_STATE_DB e))) \<subseteq> fs_dirs (write_state e db d)"
    by (simp add: write_state_dirs)
  show "fs_dirs d \<subseteq> fs_dirs (write_state e db d)"
    by (simp add: write_state_dirs)
  show "write_state e db d = interrupted_save (length (save_ops e db)) e db d"
    by (simp add: write_state_def interrupted_save_def)
  show "fs_files (interrupted_save 2 e db d) (SYNC_STATE_DB e) = Some []"
    by (simp add: interrupted_save_2)
  show "\<forall>p. p \<noteq> SYNC_STATE_DB e \<longrightarrow> fs_files (interrupted_save 2 e db d) p = fs_files d p"
    by (simp add: interrupted_save_2)
qed

subsection \<open>Grouping names\<close>

lemma path_name_parent: "path_name (path_parent fp) = dir_name_above 1 fp"
proof (cases "1 < length fp")
  case True
  then have "butlast fp \<noteq> []" by (cases fp) (auto split: if_splits)
  with True show ?thesis
    by (simp add: path_name_def path_parent_def last_conv_nth nth_butlast dir_name_above_def)
next
  case False
  then have "butlast fp = []" by (cases fp) (auto split: if_splits)
  with False show ?thesis by (simp add: path_name_def path_parent_def dir_name_above_def)
qed

lemma path_name_grandparent: "path_name (path_parent (path_parent fp)) = dir_name_above 2 fp"
proof (cases "2 < length fp")
  case True
  then have "length (butlast (butlast fp)) \<noteq> 0" by simp
  then have "butlast (butlast fp) \<noteq> []" by blast
  moreover from True have "length fp - Suc (Suc (Suc 0)) = length fp - 3" by simp
  ultimately show ?thesis using True
    by (simp add: path_name_def path_parent_def last_conv_nth nth_butlast dir_name_above_def)
next
  case False
  then have "length (butlast (butlast fp)) = 0" by simp
  then have "butlast (butlast fp) = []" by blast
  with False show ?thesis by (simp add: path_name_def path_parent_def dir_name_above_def)
qed

lemma collection_name_of_eq:
  "collection_name_of e root ent = grouping_name e root (file_path root ent)"
proof -
  have v: "(c \<in> set [FASTGPT_CN_SUBDIR e, ''zh'', ''en'']) = variant_name e c" for c
    by (simp add: variant_name_def)
  have u: "(c = [] \<or> c \<in> set [''.'', ''/'', path_name (root_path root)]) = (\<not> usable_name root c)" for c
    by (simp add: usable_name_def)
  show ?thesis
    unfolding collection_name_of_def path_name_grandparent
    unfolding path_name_parent Let_def v u grouping_name_def grouping_candidate_def
    by simp
qed

text \<open>
  C8 (as the code has it). The grouping name of a file is found in this order: the
  name of its parent directory; the name of the grandparent when the parent is a
  variant directory; \<^verbatim>\<open>history\<close> when any component of the path is \<^verbatim>\<open>history\<close>,
  whatever the directories are; and last, the fixed default replaces the name so found
  when that name is empty, a dot, a slash or the name of the scan root itself. So the
  marker wins over the directories but not over the last rule: under a scan root that
  is itself named \<^verbatim>\<open>history\<close> the grouping name is the default.
\<close>

theorem grouping_name_policy:
  "collection_name_of e root ent = grouping_name e root (file_path root ent)
   \<and> (file_path root ent = dirs @ [parent, fname] \<and> ''history'' \<notin> set (file_path root ent)
        \<and> \<not> variant_name e parent \<and> usable_name root parent
      \<longrightarrow> collection_name_of e root ent = parent)
   \<and> (file_path root ent = dirs @ [grand, parent, fname] \<and> ''history'' \<notin> set (file_path root ent)
        \<and> variant_name e parent \<and> usable_name root grand
      \<longrightarrow> collection_name_of e root ent = grand)
   \<and> (''history'' \<in> set (file_path root ent) \<and> usable_name root ''history''
      \<longrightarrow> collection_name_of e root ent = ''history'')
   \<and> (\<not> usable_name root (grouping_candidate e (file_path root ent))
      \<longrightarrow> collection_name_of e root ent = ''Default_Collection'')
   \<and> (''history'' \<in> set (file_path root ent) \<and> path_name (root_path root) = ''history''
      \<longrightarrow> collection_name_of e root ent = ''Default_Collection'')"
proof (intro conjI impI)
  show "collection_name_of e root ent = grouping_name e root (file_path root ent)"
    by (rule collection_name_of_eq)
next
  assume a: "file_path root ent = dirs @ [parent, fname] \<and> ''history'' \<notin> set (file_path root ent)
        \<and> \<not> variant_name e parent \<and> usable_name root parent"
  then have "dir_name_above 1 (file_path root ent) = parent"
    by (simp add: dir_name_above_def)
  moreover from a have "''history'' \<notin> set (file_path root ent)" "\<not> variant_name e parent"
    by blast+
  ultimately have "grouping_candidate e (file_path root ent) = parent"
    unfolding grouping_candidate_def by (simp only: if_False)
  moreover from a have "usable_name root parent" by blast
  ultimately show "collection_name_of e root ent = parent"
    unfolding collection_name_of_eq grouping_name_def by (simp only: if_True)
next
  assume a: "file_path root ent = dirs @ [grand, parent, fname] \<and> ''history'' \<notin> set (file_path root ent)
        \<and> variant_name e parent \<and> usable_name root grand"
  then have "dir_name_above 1 (file_path root ent) = parent" "dir_name_above 2 (file_path root ent) = grand"
    by (simp_all add: dir_name_above_def nth_append)
  moreover from a have "''history'' \<notin> set (file_path root ent)" "variant_name e parent"
    by blast+
  ultimately have "grouping_candidate e (file_path root ent) = grand"
    unfolding grouping_candidate_def by (simp only: if_False if_True)
  moreover from a have "usable_name root grand" by blast
  ultimately show "collection_name_of e root ent = grand"
    unfolding collection_name_of_eq grouping_name_def by (simp only: if_True)
next
  assume a: "''history'' \<in> set (file_path root ent) \<and> usable_name root ''history''"
  then have "''history'' \<in> set (file_path root ent)" by blast
  then have "grouping_candidate e (file_path root ent) = ''history''"
    unfolding grouping_candidate_def by (simp only: if_True)
  moreover from a have "usable_name root ''history''" by blast
  ultimately show "collection_name_of e root ent = ''history''"
    unfolding collection_name_of_eq grouping_name_def by (simp only: if_True)
next
  assume "\<not> usable_name root (grouping_candidate e (file_path root ent))"
  then show "collection_name_of e root ent = ''Default_Collection''"
    unfolding collection_name_of_eq grouping_name_def by (simp only: if_False)
next
  assume a: "''history'' \<in> set (file_path root ent) \<and> path_name (root_path root) = ''history''"
  then have "''history'' \<in> set (file_path root ent)" by blast
  then have "grouping_candidate e (file_path root ent) = ''history''"
    unfolding grouping_candidate_def by (simp only: if_True)
  moreover from a have "\<not> usable_name root ''history''"
    by (simp add: usable_name_def)
  ultimately show "collection_name_of e root ent = ''Default_Collection''"
    unfolding collection_name_of_eq grouping_name_def by (simp only: if_False)
qed

subsection \<open>Running twice\<close>

lemma upload_file_accepted:
  assumes "1 \<le> RETRY_TIMES e"
      and "api_ok (remote e (exchanges s) (Create_localFile fn b c))"
  shows "upload_file e fn b c s =
           (Inr True, s\<lparr>exchanges := exchanges s @
              [(Create_localFile fn b c, remote e (exchanges s) (Create_localFile fn b c))]\<rparr>)"
proof -
  from assms(1) obtain k where "nat (RETRY_TIMES e) = Suc k"
    by (cases "nat (RETRY_TIMES e)") auto
  with assms(2) show ?thesis by (simp add: upload_file_def send_eq)
qed

lemma dict_set_subset: "set (dict_set k v xs) \<subseteq> insert (k, v) (set xs)"
  by (induction xs) (auto split: if_splits)

lemma dict_set_keys:
  "map fst (dict_set k v xs) = (if k \<in> set (map fst xs) then map fst xs else map fst xs @ [k])"
  by (induction xs) (force simp: image_iff)+

lemma list_all_dict_set: "P (k, v) \<Longrightarrow> list_all P xs \<Longrightarrow> list_all P (dict_set k v xs)"
  using dict_set_subset[of k v xs] by (auto simp: list_all_iff)

lemma store_inv_dict_set:
  "store_inv db \<Longrightarrow> get_file_identity k = k \<Longrightarrow> map_of r ''filename'' \<noteq> None
   \<Longrightarrow> store_inv (dict_set k r db)"
  unfolding store_inv_def
  by (auto simp: dict_set_keys intro: list_all_dict_set)

lemma cache_truthy: "cache_ok s \<Longrightarrow> map_of (collection_cache s) n = Some cid \<Longrightarrow> truthy cid"
  by (metis cache_ok_def list_all_iff map_of_SomeD snd_conv)

lemma new_record_facts:
  "new_record e root ent cid s \<noteq> []"
  "dict_get (new_record e root ent cid s) ''hash'' = JStr (md5_hexdigest e (content ent))"
  "map_of (new_record e root ent cid s) ''filename'' \<noteq> None"
  by (simp_all add: new_record_def dict_get_def dict_get_default_def)

text \<open>One file of a run whose remote calls all succeed.\<close>

lemma process_file_run_succeeds:
  fixes e root ent s
  assumes ok: "run_succeeds e" and c: "cache_ok s" and i: "store_inv (files_db s)"
  defines "s' \<equiv> process_file e root ent s"
  shows "crashed s' = crashed s \<and> cache_ok s' \<and> store_inv (files_db s')
       \<and> (eligible e root ent \<longrightarrow> in_sync e (files_db s') root ent)
       \<and> (files_db s' = files_db s
          \<or> (eligible e root ent
             \<and> (\<exists>r. files_db s' = dict_set (get_file_identity (filename_of root ent)) r (files_db s)
                    \<and> r \<noteq> [] \<and> dict_get r ''hash'' = JStr (md5_hexdigest e (content ent)))))"
proof (cases "s' = upload_needed e root ent s \<and> eligible e root ent")
  case False
  then have "s' = s \<or> s' = s\<lparr>skipped := skipped s + 1\<rparr>"
    and "eligible e root ent \<longrightarrow> in_sync e (files_db s) root ent"
    by (auto simp: s'_def process_file_cases eligible_def in_sync_def split: if_splits)
  with c i show ?thesis by (auto simp: cache_ok_def)
next
  case True
  let ?n = "collection_name_of e root ent"
  let ?fn = "filename_of root ent"
  let ?i = "get_file_identity ?fn"
  obtain cid s1 where r: "resolve_collection e ?n s = (cid, s1)"
    by (cases "resolve_collection e ?n s")
  from resolve_collection_frame[OF r] obtain xs where
    s1: "s1 = s\<lparr>exchanges := exchanges s @ xs,
                collection_cache :=
                  (if truthy cid \<and> map_of (collection_cache s) ?n = None
                   then dict_set ?n cid (collection_cache s) else collection_cache s)\<rparr>"
    and xs: "if map_of (collection_cache s) ?n = None
              then (map fst xs = [Collection_list ?n JNull]
                    \<or> map fst xs = [Collection_list ?n JNull, Collection_create ?n JNull])
                   \<and> cid = fst (get_or_create_collection e ?n JNull s)
              else xs = [] \<and> map_of (collection_cache s) ?n = Some cid"
    by blast
  have t: "truthy cid"
  proof (cases "map_of (collection_cache s) ?n = None")
    case True
    with xs ok show ?thesis
      by (simp add: run_succeeds_def resolution_always_succeeds_def)
  next
    case False
    with xs c show ?thesis by (auto intro: cache_truthy)
  qed
  let ?rq = "Create_localFile ?fn (content ent) cid"
  let ?s2 = "s1\<lparr>exchanges := exchanges s1 @ [(?rq, remote e (exchanges s1) ?rq)]\<rparr>"
  from ok have u: "upload_file e ?fn (content ent) cid s1 = (Inr True, ?s2)"
    by (intro upload_file_accepted) (simp_all add: run_succeeds_def)
  let ?rec = "new_record e root ent cid ?s2"
  from upload_needed_unfold[OF r] t u True have
    s': "s' = record_upload e root ent cid (state_truthy (map_of (files_db s) ?i)) ?s2"
    by simp
  then have db: "files_db s' = dict_set ?i ?rec (files_db s)"
    and cr: "crashed s' = crashed s"
    and cc: "collection_cache s' = collection_cache s1"
    using s1 by (simp_all add: record_upload_def save_state_def)
  have "cache_ok s'"
    using cc s1 c t by (auto simp: cache_ok_def intro: list_all_dict_set)
  moreover have "store_inv (files_db s')"
    unfolding db using i by (intro store_inv_dict_set) (simp_all add: identity_idem new_record_facts)
  moreover have "in_sync e (files_db s') root ent"
    unfolding db in_sync_def unchanged_def
    by (simp add: dict_set_map_of new_record_facts)
  ultimately show ?thesis
    using cr db True new_record_facts(1,2)[of e root ent cid ?s2] by blast
qed

lemma in_sync_preserved:
  assumes "in_sync e db r' f'"
      and "same_identity_same_digest e (r, f) (r', f')"
      and "eligible e r f" "eligible e r' f'"
      and "rec \<noteq> []" "dict_get rec ''hash'' = JStr (md5_hexdigest e (content f))"
  shows "in_sync e (dict_set (get_file_identity (filename_of r f)) rec db) r' f'"
  using assms
  by (auto simp: in_sync_def unchanged_def dict_set_map_of same_identity_same_digest_def)

lemma run_succeeds_invariant:
  assumes ok: "run_succeeds e"
  shows "cache_ok s \<Longrightarrow> store_inv (files_db s) \<Longrightarrow> crashed s = None
     \<Longrightarrow> identity_consistent e (done @ ps)
     \<Longrightarrow> (\<forall>p \<in> set done. eligible e (fst p) (snd p) \<longrightarrow> in_sync e (files_db s) (fst p) (snd p))
     \<Longrightarrow> crashed (scan_pairs e ps s) = None \<and> store_inv (files_db (scan_pairs e ps s))
       \<and> (\<forall>p \<in> set (done @ ps). eligible e (fst p) (snd p)
             \<longrightarrow> in_sync e (files_db (scan_pairs e ps s)) (fst p) (snd p))"
proof (induction ps arbitrary: s "done")
  case Nil
  then show ?case by simp
next
  case (Cons p ps)
  obtain r f where p: "p = (r, f)" by (cases p)
  let ?s' = "process_file e r f s"
  from process_file_run_succeeds[OF ok Cons.prems(1,2), of r f] Cons.prems(3)
  have cr: "crashed ?s' = None" and c: "cache_ok ?s'" and i: "store_inv (files_db ?s')"
    and me: "eligible e r f \<longrightarrow> in_sync e (files_db ?s') r f"
    and ch: "files_db ?s' = files_db s
          \<or> (eligible e r f
             \<and> (\<exists>rec. files_db ?s' = dict_set (get_file_identity (filename_of r f)) rec (files_db s)
                    \<and> rec \<noteq> [] \<and> dict_get rec ''hash'' = JStr (md5_hexdigest e (content f))))"
    by simp_all
  have con: "identity_consistent e ((done @ [p]) @ ps)" using Cons.prems(4) by simp
  have old: "\<forall>q \<in> set (done @ [p]). eligible e (fst q) (snd q)
                \<longrightarrow> in_sync e (files_db ?s') (fst q) (snd q)"
  proof (intro ballI impI)
    fix q assume q: "q \<in> set (done @ [p])" and eq: "eligible e (fst q) (snd q)"
    show "in_sync e (files_db ?s') (fst q) (snd q)"
    proof (cases "q = p")
      case True
      with me eq p show ?thesis by simp
    next
      case False
      with q have qd: "q \<in> set done" by simp
      with Cons.prems(5) eq have isy: "in_sync e (files_db s) (fst q) (snd q)" by blast
      from ch show ?thesis
      proof
        assume "files_db ?s' = files_db s"
        with isy show ?thesis by simp
      next
        assume a: "eligible e r f
             \<and> (\<exists>rec. files_db ?s' = dict_set (get_file_identity (filename_of r f)) rec (files_db s)
                    \<and> rec \<noteq> [] \<and> dict_get rec ''hash'' = JStr (md5_hexdigest e (content f)))"
        then obtain rec where rec: "files_db ?s' = dict_set (get_file_identity (filename_of r f)) rec (files_db s)"
          "rec \<noteq> []" "dict_get rec ''hash'' = JStr (md5_hexdigest e (content f))" by blast
        from Cons.prems(4) qd have "same_identity_same_digest e p q"
          by (auto simp: identity_consistent_def list_all_iff)
        then have "same_identity_same_digest e (r, f) (fst q, snd q)" by (simp add: p)
        from in_sync_preserved[OF isy this _ eq rec(2,3)] a rec(1) show ?thesis by simp
      qed
    qed
  qed
  from Cons.IH[OF c i cr con old] Cons.prems(3) show ?case by (simp add: p)
qed

lemma scan_pairs_all_in_sync:
  "crashed s = None
   \<Longrightarrow> (\<forall>p \<in> set ps. eligible e (fst p) (snd p) \<longrightarrow> in_sync e (files_db s) (fst p) (snd p))
   \<Longrightarrow> scan_pairs e ps s
       = s\<lparr>skipped := skipped s + length (filter (\<lambda>(r, f). marker_ok (filename_of r f)) ps)\<rparr>"
proof (induction ps arbitrary: s)
  case Nil
  then show ?case by simp
next
  case (Cons p ps)
  obtain r f where p: "p = (r, f)" by (cases p)
  from Cons.prems(2) have "eligible e r f \<longrightarrow> in_sync e (files_db s) r f" by (simp add: p)
  then have st: "process_file e r f s
      = (if marker_ok (filename_of r f) then s\<lparr>skipped := skipped s + 1\<rparr> else s)"
    by (auto simp: process_file_cases eligible_def in_sync_def)
  let ?s' = "process_file e r f s"
  from st Cons.prems have "crashed ?s' = None"
    and "\<forall>p \<in> set ps. eligible e (fst p) (snd p) \<longrightarrow> in_sync e (files_db ?s') (fst p) (snd p)"
    by auto
  from Cons.IH[OF this] Cons.prems(1) st show ?case
    by (simp add: p)
qed


subsection \<open>Evaluating the examples\<close>

lemma filename_of_ex [simp]:
  "filename_of (ex_root ents) ex_fileA = ''2025-01-01-NCT01234567-zh.md''"
  "filename_of (ex_root ents) ex_fileB = ''2025-01-02-NCT01234567-zh.md''"
  "filename_of (ex_root ents) ex_fileN = ''2025-01-02-NCT01234567.md''"
  "filename_of (ex_root ents) ex_fileH1 = ''2025-01-01-NCT00000001-zh.md''"
  "filename_of (ex_root ents) ex_fileH2 = ''2025-01-01-NCT00000002-zh.md''"
  by (simp_all add: filename_of_def file_path_def path_name_def ex_root_def
      ex_fileA_def ex_fileB_def ex_fileN_def ex_fileH1_def ex_fileH2_def)

lemma marker_ok_ex [simp]:
  "marker_ok ''2025-01-01-NCT01234567-zh.md''"
  "marker_ok ''2025-01-02-NCT01234567-zh.md''"
  "\<not> marker_ok ''2025-01-02-NCT01234567.md''"
  "marker_ok ''2025-01-01-NCT00000001-zh.md''"
  "marker_ok ''2025-01-01-NCT00000002-zh.md''"
  by (simp_all add: marker_ok_def startswith_def)

lemma no_zh_ex: "\<not> contains ''-zh'' ''2025-01-02-NCT01234567.md''"
  by (simp add: startswith_def)

lemma identity_ex [simp]:
  "get_file_identity ''2025-01-01-NCT01234567-zh.md'' = ''NCT01234567''"
  "get_file_identity ''2025-01-02-NCT01234567-zh.md'' = ''NCT01234567''"
  "get_file_identity ''2025-01-01-NCT00000001-zh.md'' = ''NCT00000001''"
  "get_file_identity ''2025-01-01-NCT00000002-zh.md'' = ''NCT00000002''"
  by (simp_all add: get_file_identity_def nct_here_def is_digit_def)

lemma date_ok_all: "UPLOAD_FILTER_MODE e \<noteq> ''today'' \<Longrightarrow> date_ok e fn"
  by (simp add: date_ok_def)

lemma date_ok_ex [simp]:
  "date_ok ex_env fn" "date_ok ex_env_rejects fn" "date_ok ex_env_down fn"
  "\<not> date_ok ex_env_today ''2025-01-01-NCT01234567-zh.md''"
  "date_ok ex_env_today ''2025-01-02-NCT01234567-zh.md''"
  by (simp_all add: date_ok_def ex_env_def ex_env_rejects_def ex_env_down_def ex_env_today_def
      startswith_def)

lemma ex_md5_values [simp]:
  "ex_md5 ''v1'' = ''6654c734ccab8f440ff0825eb443dc7f''"
  "ex_md5 ''v2'' = ''1b267619c4812cc46ee281747884ca50''"
  by (simp_all add: ex_md5_def)

lemma md5_ex [simp]:
  "md5_hexdigest ex_env = ex_md5" "md5_hexdigest ex_env_today = ex_md5"
  "md5_hexdigest ex_env_rejects = ex_md5" "md5_hexdigest ex_env_down = ex_md5"
  by (simp_all add: ex_env_def ex_env_rejects_def ex_env_down_def ex_env_today_def)

lemma content_ex [simp]:
  "content ex_fileA = ''v1''" "content ex_fileB = ''v2''" "content ex_fileN = ''v1''"
  "content ex_fileH1 = ''v1''" "content ex_fileH2 = ''v2''"
  by (simp_all add: ex_fileA_def ex_fileB_def ex_fileN_def ex_fileH1_def ex_fileH2_def)

lemma file_path_ex [simp]:
  "file_path (ex_root ents) ex_fileA = [''output'', ''trials'', ''2025-01-01-NCT01234567-zh.md'']"
  "file_path (ex_root ents) ex_fileB = [''output'', ''trials'', ''2025-01-02-NCT01234567-zh.md'']"
  "file_path (ex_root ents) ex_fileN = [''output'', ''trials'', ''2025-01-02-NCT01234567.md'']"
  "file_path (ex_root ents) ex_fileH1 = [''output'', ''history'', ''2025-01-01-NCT00000001-zh.md'']"
  "file_path (ex_root ents) ex_fileH2 = [''output'', ''history'', ''2025-01-01-NCT00000002-zh.md'']"
  by (simp_all add: file_path_def ex_root_def
      ex_fileA_def ex_fileB_def ex_fileN_def ex_fileH1_def ex_fileH2_def)

lemma is_md_ex [simp]:
  "path_suffix [''output'', ''trials'', ''2025-01-01-NCT01234567-zh.md''] = ''.md''"
  "path_suffix [''output'', ''trials'', ''2025-01-02-NCT01234567-zh.md''] = ''.md''"
  "path_suffix [''output'', ''trials'', ''2025-01-02-NCT01234567.md''] = ''.md''"
  "path_suffix [''output'', ''history'', ''2025-01-01-NCT00000001-zh.md''] = ''.md''"
  "path_suffix [''output'', ''history'', ''2025-01-01-NCT00000002-zh.md''] = ''.md''"
  by (simp_all add: path_suffix_def path_name_def Let_def)

lemma is_file_ex [simp]:
  "is_file ex_fileA" "is_file ex_fileB" "is_file ex_fileN" "is_file ex_fileH1" "is_file ex_fileH2"
  by (simp_all add: ex_fileA_def ex_fileB_def ex_fileN_def ex_fileH1_def ex_fileH2_def)

lemma work_list_ex:
  "work_list [ex_root [ex_fileA, ex_fileB]]
     = [(ex_root [ex_fileA, ex_fileB], ex_fileA), (ex_root [ex_fileA, ex_fileB], ex_fileB)]"
  "work_list [ex_root [ex_fileA, ex_fileN]]
     = [(ex_root [ex_fileA, ex_fileN], ex_fileA), (ex_root [ex_fileA, ex_fileN], ex_fileN)]"
  "work_list [ex_root [ex_fileH1, ex_fileH2]]
     = [(ex_root [ex_fileH1, ex_fileH2], ex_fileH1), (ex_root [ex_fileH1, ex_fileH2], ex_fileH2)]"
proof -
  have r: "root_exists (ex_root ents)" "entries (ex_root ents) = ents" for ents
    by (simp_all add: ex_root_def)
  show "work_list [ex_root [ex_fileA, ex_fileB]]
     = [(ex_root [ex_fileA, ex_fileB], ex_fileA), (ex_root [ex_fileA, ex_fileB], ex_fileB)]"
    "work_list [ex_root [ex_fileA, ex_fileN]]
     = [(ex_root [ex_fileA, ex_fileN], ex_fileA), (ex_root [ex_fileA, ex_fileN], ex_fileN)]"
    "work_list [ex_root [ex_fileH1, ex_fileH2]]
     = [(ex_root [ex_fileH1, ex_fileH2], ex_fileH1), (ex_root [ex_fileH1, ex_fileH2], ex_fileH2)]"
    by (simp_all add: work_list_def all_files_def r)
qed

lemma cn_subdir_ex [simp]:
  "FASTGPT_CN_SUBDIR ex_env = ''cn''" "FASTGPT_CN_SUBDIR ex_env_today = ''cn''"
  "FASTGPT_CN_SUBDIR ex_env_rejects = ''cn''" "FASTGPT_CN_SUBDIR ex_env_down = ''cn''"
  by (simp_all add: ex_env_def ex_env_rejects_def ex_env_down_def ex_env_today_def)

lemma collection_name_trials:
  assumes "FASTGPT_CN_SUBDIR e = ''cn''"
  shows "collection_name_of e (ex_root ents) ex_fileA = ''trials''"
    and "collection_name_of e (ex_root ents) ex_fileB = ''trials''"
proof -
  have r: "path_name (root_path (ex_root ents)) = ''output''"
    by (simp add: ex_root_def path_name_def)
  have u: "usable_name (ex_root ents) ''trials''"
    by (simp add: usable_name_def r)
  have c: "grouping_candidate e [''output'', ''trials'', x] = ''trials''"
    if "x \<noteq> ''history''" for x
    using that assms by (simp add: grouping_candidate_def dir_name_above_def variant_name_def)
  show "collection_name_of e (ex_root ents) ex_fileA = ''trials''"
    "collection_name_of e (ex_root ents) ex_fileB = ''trials''"
    by (simp_all add: collection_name_of_eq grouping_name_def c u)
qed

lemma collection_name_history [simp]:
  "collection_name_of e (ex_root ents) ex_fileH1 = ''history''"
  "collection_name_of e (ex_root ents) ex_fileH2 = ''history''"
proof -
  have r: "path_name (root_path (ex_root ents)) = ''output''"
    by (simp add: ex_root_def path_name_def)
  have u: "usable_name (ex_root ents) ''history''"
    by (simp add: usable_name_def r)
  have h: "grouping_candidate e [''output'', ''history'', x] = ''history''" for x
    by (simp add: grouping_candidate_def)
  show "collection_name_of e (ex_root ents) ex_fileH1 = ''history''"
    "collection_name_of e (ex_root ents) ex_fileH2 = ''history''"
    by (simp_all add: collection_name_of_eq grouping_name_def h u)
qed

subsection \<open>Instances: filters and grouping names\<close>


text \<open>A root with a marked and an unmarked file.\<close>

theorem unmarked_file_never_uploaded_witness:
  "process_file ex_env (ex_root [ex_fileA, ex_fileN]) ex_fileN (ex_state []) = ex_state []
   \<and> list_all (contains ''-zh'')
        (uploaded_names (exchanges (sync_once ex_env [ex_root [ex_fileA, ex_fileN]] [] ex_disk)))"
  using unmarked_file_never_uploaded
          [of "ex_root [ex_fileA, ex_fileN]" ex_fileN ex_env "ex_state []"
              "[ex_root [ex_fileA, ex_fileN]]" "[]" ex_disk]
        no_zh_ex
  by simp

text \<open>A file under a plain directory, under a variant directory, under \<^verbatim>\<open>history\<close>,
  directly in the scan root, and under a scan root named \<^verbatim>\<open>history\<close>.\<close>

theorem grouping_name_policy_witness:
  "collection_name_of ex_env (ex_root []) ex_fileA = ''trials''
   \<and> collection_name_of ex_env (ex_root [])
        \<lparr>rel = [''trials'', ''cn'', ''2025-01-01-NCT01234567-zh.md''], is_file = True, content = ''v1''\<rparr>
       = ''trials''
   \<and> collection_name_of ex_env (ex_root []) ex_fileH1 = ''history''
   \<and> collection_name_of ex_env (ex_root [])
        \<lparr>rel = [''2025-01-01-NCT01234567-zh.md''], is_file = True, content = ''v1''\<rparr>
       = ''Default_Collection''
   \<and> collection_name_of ex_env ex_history_root ex_fileH1 = ''Default_Collection''"
proof -
  let ?R = "ex_root []"
  let ?cn = "\<lparr>rel = [''trials'', ''cn'', ''2025-01-01-NCT01234567-zh.md''], is_file = True, content = ''v1''\<rparr>"
  let ?top = "\<lparr>rel = [''2025-01-01-NCT01234567-zh.md''], is_file = True, content = ''v1''\<rparr>"
  have r: "path_name (root_path ?R) = ''output''"
    by (simp add: ex_root_def path_name_def)
  have u: "usable_name ?R ''trials''" "usable_name ?R ''history''" "\<not> usable_name ?R ''output''"
    by (simp_all add: usable_name_def r)
  have v: "\<not> variant_name ex_env ''trials''" "variant_name ex_env ''cn''"
    by (simp_all add: variant_name_def ex_env_def)
  have p: "file_path ?R ?cn = [''output''] @ [''trials'', ''cn'', ''2025-01-01-NCT01234567-zh.md'']"
    "file_path ?R ?top = [''output'', ''2025-01-01-NCT01234567-zh.md'']"
    "file_path ?R ex_fileA = [''output''] @ [''trials'', ''2025-01-01-NCT01234567-zh.md'']"
    by (simp_all add: file_path_def ex_root_def ex_fileA_def)
  have c: "grouping_candidate ex_env [''output'', ''2025-01-01-NCT01234567-zh.md''] = ''output''"
    by (simp add: grouping_candidate_def dir_name_above_def variant_name_def ex_env_def)
  have n: "''history'' \<notin> set (file_path ?R ex_fileA)" "''history'' \<notin> set (file_path ?R ?cn)"
    "''history'' \<in> set (file_path ?R ex_fileH1)"
    by (simp_all add: file_path_def ex_root_def ex_fileA_def ex_fileH1_def)
  have c': "\<not> usable_name ?R (grouping_candidate ex_env (file_path ?R ?top))"
    using c u(3) p(2) by simp
  from grouping_name_policy [of ex_env ?R ex_fileA "[''output'']" "''trials''"
        "''2025-01-01-NCT01234567-zh.md''"] u(1) v(1) p(3) n(1)
  have 1: "collection_name_of ex_env ?R ex_fileA = ''trials''" by blast
  from grouping_name_policy [of ex_env ?R ?cn "[''output'']" "''cn''"
        "''2025-01-01-NCT01234567-zh.md''" "''trials''"] u(1) v(2) p(1) n(2)
  have 2: "collection_name_of ex_env ?R ?cn = ''trials''" by blast
  from grouping_name_policy [of ex_env ?R ex_fileH1] u(2) n(3)
  have 3: "collection_name_of ex_env ?R ex_fileH1 = ''history''" by blast
  from grouping_name_policy [of ex_env ?R ?top] c'
  have 4: "collection_name_of ex_env ?R ?top = ''Default_Collection''" by blast
  have h: "''history'' \<in> set (file_path ex_history_root ex_fileH1)"
    "path_name (root_path ex_history_root) = ''history''"
    by (simp_all add: file_path_def ex_history_root_def ex_fileH1_def path_name_def)
  from grouping_name_policy [of ex_env ex_history_root ex_fileH1] h
  have 5: "collection_name_of ex_env ex_history_root ex_fileH1 = ''Default_Collection''"
    by blast
  from 1 2 3 4 5 show ?thesis by blast
qed

text \<open>
  A file of a plain directory under a scan root that is itself named \<^verbatim>\<open>history\<close>: the
  path has the component \<^verbatim>\<open>history\<close>, and the grouping name is the default, not
  \<^verbatim>\<open>history\<close>.
\<close>

theorem history_root_gets_default_name:
  "''history'' \<in> set (file_path ex_history_root ex_fileA)
   \<and> collection_name_of ex_env ex_history_root ex_fileA = ''Default_Collection''
   \<and> collection_name_of ex_env ex_history_root ex_fileA \<noteq> ''history''"
proof -
  have p: "file_path ex_history_root ex_fileA
      = [''history'', ''trials'', ''2025-01-01-NCT01234567-zh.md'']"
    by (simp add: file_path_def ex_history_root_def ex_fileA_def)
  have c: "grouping_candidate ex_env (file_path ex_history_root ex_fileA) = ''history''"
    by (simp add: p grouping_candidate_def)
  have u: "\<not> usable_name ex_history_root ''history''"
    by (simp add: usable_name_def ex_history_root_def path_name_def)
  have "collection_name_of ex_env ex_history_root ex_fileA = ''Default_Collection''"
    by (simp add: collection_name_of_eq grouping_name_def c u)
  with p show ?thesis by simp
qed

subsection \<open>Instances: saving and retries\<close>

lemma env_fields_ex [simp]:
  "SYNC_STATE_DB ex_env = [''data'', ''fastgpt_sync_state.json'']"
  "json_chunks ex_env db = ''{'' # map fst db @ [''}'']"
  "RETRY_TIMES ex_env = 3" "RETRY_TIMES ex_env_rejects = 3" "RETRY_TIMES ex_env_down = 3"
  "RETRY_DELAY ex_env = 5" "RETRY_DELAY ex_env_rejects = 5" "RETRY_DELAY ex_env_down = 5"
  "remote ex_env = remote_accepts" "remote ex_env_rejects = remote_rejects_uploads"
  "remote ex_env_down = remote_down"
  by (simp_all add: ex_env_def ex_env_rejects_def ex_env_down_def)

lemma ex_state_fields [simp]:
  "files_db (ex_state db) = db" "disk (ex_state db) = ex_disk" "added (ex_state db) = 0"
  "modified (ex_state db) = 0" "skipped (ex_state db) = 0" "collection_cache (ex_state db) = []"
  "exchanges (ex_state db) = []" "sleeps (ex_state db) = []" "crashed (ex_state db) = None"
  by (simp_all add: ex_state_def)

text \<open>
  A state file that holds an old mapping, and a save of a new mapping that stops after
  its second step: the state file is the only file there is, and it is empty, neither
  the old mapping nor the new one.
\<close>

theorem interrupted_save_leaves_empty_file:
  "fs_files ex_old_disk (SYNC_STATE_DB ex_env) = Some ''{NCT00000001}''
   \<and> concat (json_chunks ex_env ex_store_v1) = ''{NCT01234567}''
   \<and> fs_files (interrupted_save 2 ex_env ex_store_v1 ex_old_disk)
       = [[''data'', ''fastgpt_sync_state.json''] \<mapsto> []]"
  by (simp add: interrupted_save_2 ex_old_disk_def ex_store_v1_def)

text \<open>The same save run to its end, and stopped after two steps.\<close>

theorem save_rewrites_in_place_witness:
  "fs_files (write_state ex_env ex_store_v1 ex_old_disk) [''data'', ''fastgpt_sync_state.json'']
     = Some ''{NCT01234567}''
   \<and> fs_files (write_state ex_env ex_store_v1 ex_old_disk) [''data'', ''other.json''] = None
   \<and> [''data''] \<in> fs_dirs (write_state ex_env ex_store_v1 ex_old_disk)
   \<and> fs_files (interrupted_save 2 ex_env ex_store_v1 ex_old_disk)
        [''data'', ''fastgpt_sync_state.json''] = Some []
   \<and> fs_files (interrupted_save 2 ex_env ex_store_v1 ex_old_disk) [''data'', ''other.json''] = None"
proof -
  have o: "[''data'', ''other.json''] \<noteq> SYNC_STATE_DB ex_env" by simp
  have f: "fs_files ex_old_disk [''data'', ''other.json''] = None"
    by (simp add: ex_old_disk_def)
  have p: "path_parent (SYNC_STATE_DB ex_env) = [''data'']"
    by (simp add: path_parent_def)
  have c: "concat (json_chunks ex_env ex_store_v1) = ''{NCT01234567}''"
    by (simp add: ex_store_v1_def)
  note t = save_rewrites_in_place [of ex_env ex_store_v1 ex_old_disk]
  from t have 1: "fs_files (write_state ex_env ex_store_v1 ex_old_disk) (SYNC_STATE_DB ex_env)
      = Some (concat (json_chunks ex_env ex_store_v1))" by blast
  from t o have 2: "fs_files (write_state ex_env ex_store_v1 ex_old_disk) [''data'', ''other.json'']
      = fs_files ex_old_disk [''data'', ''other.json'']" by blast
  from t have 3: "path_parent (SYNC_STATE_DB ex_env)
      \<in> fs_dirs (write_state ex_env ex_store_v1 ex_old_disk)" by blast
  from t have 4: "fs_files (interrupted_save 2 ex_env ex_store_v1 ex_old_disk)
      (SYNC_STATE_DB ex_env) = Some []" by blast
  from t o have 5: "fs_files (interrupted_save 2 ex_env ex_store_v1 ex_old_disk)
      [''data'', ''other.json''] = fs_files ex_old_disk [''data'', ''other.json'']" by blast
  from 1 2 3 4 5 f p c show ?thesis by simp
qed



subsection \<open>The example remotes\<close>

lemma get_or_create_accepts:
  assumes "\<And>h p. remote e h (Collection_list n p) = Http 200 (ok_body (JList []))"
      and "\<And>h p. remote e h (Collection_create n p) = Http 200 (ok_body (JStr (''col-'' @ n)))"
  shows "fst (get_or_create_collection e n JNull s) = JStr (''col-'' @ n)"
  by (simp add: get_or_create_collection_def send_eq assms lookup_collection_def created_id_def
      ok_body_def dict_get_def dict_get_default_def)

lemma get_or_create_ex [simp]:
  "fst (get_or_create_collection ex_env n JNull s) = JStr (''col-'' @ n)"
  "fst (get_or_create_collection ex_env_rejects n JNull s) = JStr (''col-'' @ n)"
  "fst (get_or_create_collection ex_env_down n JNull s) = JNull"
proof -
  show "fst (get_or_create_collection ex_env n JNull s) = JStr (''col-'' @ n)"
    by (rule get_or_create_accepts) simp_all
  show "fst (get_or_create_collection ex_env_rejects n JNull s) = JStr (''col-'' @ n)"
    by (rule get_or_create_accepts) simp_all
  show "fst (get_or_create_collection ex_env_down n JNull s) = JNull"
    by (simp add: get_or_create_collection_def send_eq remote_down_def lookup_collection_def
        created_id_def)
qed

lemma resolve_miss:
  "map_of (collection_cache s) n = None
   \<Longrightarrow> fst (resolve_collection e n s) = fst (get_or_create_collection e n JNull s)"
  by (simp add: resolve_collection_def split: prod.splits)

lemma run_succeeds_ex: "run_succeeds ex_env"
  by (simp add: run_succeeds_def resolution_always_succeeds_def ok_body_def
      dict_get_def dict_get_default_def)

text \<open>A file that needs an upload, when find-or-create returns no id.\<close>

lemma process_file_resolution_fails:
  fixes e root ent s
  defines "m \<equiv> collection_name_of e root ent"
      and "s' \<equiv> process_file e root ent s"
  assumes el: "eligible e root ent" and ns: "\<not> in_sync e (files_db s) root ent"
      and miss: "map_of (collection_cache s) m = None"
      and bad: "\<not> truthy (fst (get_or_create_collection e m JNull s))"
  shows "files_db s' = files_db s \<and> collection_cache s' = collection_cache s
       \<and> crashed s' = crashed s
       \<and> resolution_calls m (exchanges s') = Suc (resolution_calls m (exchanges s))"
proof -
  from el ns have u: "s' = upload_needed e root ent s"
    by (simp add: s'_def process_file_cases eligible_def in_sync_def)
  obtain cid s1 where r: "resolve_collection e m s = (cid, s1)"
    by (cases "resolve_collection e m s")
  from resolve_collection_frame[OF r] miss obtain xs where
    s1: "s1 = s\<lparr>exchanges := exchanges s @ xs,
                collection_cache :=
                  (if truthy cid \<and> map_of (collection_cache s) m = None
                   then dict_set m cid (collection_cache s) else collection_cache s)\<rparr>"
    and xs: "map fst xs = [Collection_list m JNull]
             \<or> map fst xs = [Collection_list m JNull, Collection_create m JNull]"
    and c: "cid = fst (get_or_create_collection e m JNull s)"
    by auto
  from c bad have nt: "\<not> truthy cid" by simp
  with upload_needed_unfold[OF r[unfolded m_def]] u have "s' = s1" by simp
  with s1 nt resolution_calls_resolution[OF xs, of m] show ?thesis by simp
qed

text \<open>A file that needs an upload, when the remote calls succeed: the counts.\<close>

lemma process_file_counts_run_succeeds:
  fixes e root ent s
  defines "s' \<equiv> process_file e root ent s"
      and "i \<equiv> get_file_identity (filename_of root ent)"
  assumes ok: "run_succeeds e" and c: "cache_ok s"
      and el: "eligible e root ent" and ns: "\<not> in_sync e (files_db s) root ent"
  shows "added s' = (if state_truthy (map_of (files_db s) i) then added s else added s + 1)
       \<and> modified s' = (if state_truthy (map_of (files_db s) i) then modified s + 1 else modified s)"
proof -
  let ?n = "collection_name_of e root ent"
  let ?fn = "filename_of root ent"
  from el ns have un: "s' = upload_needed e root ent s"
    by (simp add: s'_def process_file_cases eligible_def in_sync_def)
  obtain cid s1 where r: "resolve_collection e ?n s = (cid, s1)"
    by (cases "resolve_collection e ?n s")
  from resolve_collection_frame[OF r] obtain xs where
    s1: "s1 = s\<lparr>exchanges := exchanges s @ xs,
                collection_cache :=
                  (if truthy cid \<and> map_of (collection_cache s) ?n = None
                   then dict_set ?n cid (collection_cache s) else collection_cache s)\<rparr>"
    and xs: "if map_of (collection_cache s) ?n = None
              then (map fst xs = [Collection_list ?n JNull]
                    \<or> map fst xs = [Collection_list ?n JNull, Collection_create ?n JNull])
                   \<and> cid = fst (get_or_create_collection e ?n JNull s)
              else xs = [] \<and> map_of (collection_cache s) ?n = Some cid"
    by blast
  have t: "truthy cid"
  proof (cases "map_of (collection_cache s) ?n = None")
    case True
    with xs ok show ?thesis
      by (simp add: run_succeeds_def resolution_always_succeeds_def)
  next
    case False
    with xs c show ?thesis by (auto intro: cache_truthy)
  qed
  let ?rq = "Create_localFile ?fn (content ent) cid"
  let ?s2 = "s1\<lparr>exchanges := exchanges s1 @ [(?rq, remote e (exchanges s1) ?rq)]\<rparr>"
  from ok have u: "upload_file e ?fn (content ent) cid s1 = (Inr True, ?s2)"
    by (intro upload_file_accepted) (simp_all add: run_succeeds_def)
  from upload_needed_unfold[OF r] t u un have
    "s' = record_upload e root ent cid (state_truthy (map_of (files_db s) i)) ?s2"
    by (simp add: i_def)
  then show ?thesis using s1 by (simp add: record_upload_def save_state_def)
qed

lemma in_sync_state_truthy:
  "in_sync e db root ent \<Longrightarrow> state_truthy (map_of db (get_file_identity (filename_of root ent)))"
  by (auto simp: in_sync_def unchanged_def state_truthy_def split: option.splits)

lemma in_sync_other_digest:
  "in_sync e db r f \<Longrightarrow>
   get_file_identity (filename_of r f) = get_file_identity (filename_of r' f') \<Longrightarrow>
   md5_hexdigest e (content f) \<noteq> md5_hexdigest e (content f') \<Longrightarrow>
   \<not> in_sync e db r' f'"
  by (auto simp: in_sync_def unchanged_def split: option.splits)

subsection \<open>Instances: failed uploads, collection resolution, repeated runs\<close>

lemma eligible_ex [simp]:
  "eligible ex_env (ex_root ents) ex_fileA" "eligible ex_env (ex_root ents) ex_fileB"
  "\<not> eligible ex_env (ex_root ents) ex_fileN"
  "eligible ex_env_down (ex_root ents) ex_fileH1" "eligible ex_env_down (ex_root ents) ex_fileH2"
  by (simp_all add: eligible_def)

lemma not_in_sync_empty [simp]: "\<not> in_sync e [] root ent"
  by (simp add: in_sync_def unchanged_def)

lemma migration_phase_fields [simp]:
  "files_db (migration_phase e db d) = migrate db"
  "added (migration_phase e db d) = 0" "modified (migration_phase e db d) = 0"
  "skipped (migration_phase e db d) = 0" "collection_cache (migration_phase e db d) = []"
  "exchanges (migration_phase e db d) = []" "crashed (migration_phase e db d) = None"
  by (simp_all add: migration_phase_def save_state_def)

lemma migrate_Nil [simp]: "migrate [] = []"
  by (simp add: migrate_def)

text \<open>A store with a stale record, and a remote that creates collections and rejects
  every upload: the record, the disk and the counts stay as they were.\<close>

theorem failed_upload_keeps_record_witness:
  "fst (upload_file ex_env_rejects ''2025-01-01-NCT01234567-zh.md'' ''v1'' (JStr ''col-trials'')
         (snd (resolve_collection ex_env_rejects ''trials'' (ex_state ex_store_v2)))) = Inr False
   \<and> files_db (upload_needed ex_env_rejects (ex_root []) ex_fileA (ex_state ex_store_v2))
       = ex_store_v2
   \<and> disk (upload_needed ex_env_rejects (ex_root []) ex_fileA (ex_state ex_store_v2)) = ex_disk
   \<and> added (upload_needed ex_env_rejects (ex_root []) ex_fileA (ex_state ex_store_v2)) = 0
   \<and> modified (upload_needed ex_env_rejects (ex_root []) ex_fileA (ex_state ex_store_v2)) = 0"
proof -
  let ?e = ex_env_rejects
  let ?s = "ex_state ex_store_v2"
  let ?r = "resolve_collection ?e ''trials'' ?s"
  let ?u = "upload_file ?e ''2025-01-01-NCT01234567-zh.md'' ''v1'' (JStr ''col-trials'') (snd ?r)"
  have n: "collection_name_of ?e (ex_root []) ex_fileA = ''trials''"
    by (rule collection_name_trials) simp
  have "fst ?r = JStr ''col-trials''"
    by (simp add: resolve_miss)
  then have r: "?r = (JStr ''col-trials'', snd ?r)"
    by (metis prod.collapse)
  have fu: "fst ?u = Inr False"
    unfolding upload_file_def by (rule upload_attempts_all_fail) simp_all
  then have u: "?u = (Inr False, snd ?u)"
    by (metis prod.collapse)
  have t: "truthy (JStr ''col-trials'')" by simp
  from failed_upload_keeps_record [of ?e "ex_root []" ex_fileA ?s "JStr ''col-trials''" "snd ?r"
        "snd ?u"] n r u t
  have "upload_needed ?e (ex_root []) ex_fileA ?s = snd ?u
         \<and> files_db (snd ?u) = files_db ?s \<and> disk (snd ?u) = disk ?s
         \<and> added (snd ?u) = added ?s \<and> modified (snd ?u) = modified ?s"
    by simp
  with fu show ?thesis by simp
qed

text \<open>
  Two files under \<^verbatim>\<open>history\<close> and a remote that answers 500 to everything:
  find-or-create is called for \<^verbatim>\<open>history\<close> once for each file.
\<close>

theorem failed_resolution_is_repeated_per_file:
  "resolution_calls ''history''
     (exchanges (sync_once ex_env_down [ex_root [ex_fileH1, ex_fileH2]] [] ex_disk)) = 2"
proof -
  let ?e = ex_env_down
  let ?R = "ex_root [ex_fileH1, ex_fileH2]"
  let ?m0 = "migration_phase ?e [] ex_disk"
  let ?s1 = "process_file ?e ?R ex_fileH1 ?m0"
  let ?s2 = "process_file ?e ?R ex_fileH2 ?s1"
  have 1: "files_db ?s1 = [] \<and> collection_cache ?s1 = [] \<and> crashed ?s1 = None
       \<and> resolution_calls ''history'' (exchanges ?s1) = Suc 0"
    using process_file_resolution_fails [of ?e ?R ex_fileH1 ?m0] by simp
  then have 2: "resolution_calls ''history'' (exchanges ?s2) = Suc (Suc 0)"
    using process_file_resolution_fails [of ?e ?R ex_fileH2 ?s1] by simp
  have "sync_once ?e [?R] [] ex_disk = ?s2"
    using 1 by (simp add: sync_once_pairs work_list_ex)
  with 2 show ?thesis by simp
qed

text \<open>A failed resolution, a cached name, and a run whose resolutions all succeed.\<close>

theorem collection_resolution_memo_witness:
  "files_db (upload_needed ex_env_down (ex_root []) ex_fileH1 (ex_state [])) = []
   \<and> uploaded_names (exchanges (upload_needed ex_env_down (ex_root []) ex_fileH1 (ex_state []))) = []
   \<and> resolution_calls ''history''
        (exchanges (snd (resolve_collection ex_env_down ''history'' (ex_state [])))) = 1
   \<and> resolve_collection ex_env ''trials''
        ((ex_state [])\<lparr>collection_cache := [(''trials'', JStr ''col-trials'')]\<rparr>)
       = (JStr ''col-trials'', (ex_state [])\<lparr>collection_cache := [(''trials'', JStr ''col-trials'')]\<rparr>)
   \<and> resolution_calls ''trials''
        (exchanges (sync_once ex_env [ex_root [ex_fileA, ex_fileB]] [] ex_disk)) \<le> 1"
proof -
  let ?c = "(ex_state [])\<lparr>collection_cache := [(''trials'', JStr ''col-trials'')]\<rparr>"
  have f: "\<not> truthy (fst (resolve_collection ex_env_down
              (collection_name_of ex_env_down (ex_root []) ex_fileH1) (ex_state [])))"
    by (simp add: resolve_miss)
  have m: "map_of (collection_cache (ex_state [])) ''history'' = None
      \<and> \<not> truthy (fst (get_or_create_collection ex_env_down ''history'' JNull (ex_state [])))"
    by simp
  have h: "map_of (collection_cache ?c) ''trials'' = Some (JStr ''col-trials'')"
    by simp
  have a: "resolution_always_succeeds ex_env"
    using run_succeeds_ex by (simp add: run_succeeds_def)
  note t1 = collection_resolution_memo [of ex_env_down "ex_root []" ex_fileH1 "ex_state []"
      "''history''" "JStr ''col-trials''" "[]" "[]" ex_disk]
  note t2 = collection_resolution_memo [of ex_env "ex_root []" ex_fileH1 ?c
      "''trials''" "JStr ''col-trials''" "[ex_root [ex_fileA, ex_fileB]]" "[]" ex_disk]
  from t1 f have 1: "files_db (upload_needed ex_env_down (ex_root []) ex_fileH1 (ex_state []))
        = files_db (ex_state [])
      \<and> uploaded_names (exchanges (upload_needed ex_env_down (ex_root []) ex_fileH1 (ex_state [])))
        = uploaded_names (exchanges (ex_state []))"
    by blast
  from t1 m have 2: "resolution_calls ''history''
        (exchanges (snd (resolve_collection ex_env_down ''history'' (ex_state []))))
      = Suc (resolution_calls ''history'' (exchanges (ex_state [])))"
    by blast
  from t2 h have 3: "resolve_collection ex_env ''trials'' ?c = (JStr ''col-trials'', ?c)"
    by blast
  from t2 a have 4: "resolution_calls ''trials''
        (exchanges (sync_once ex_env [ex_root [ex_fileA, ex_fileB]] [] ex_disk)) \<le> 1"
    by blast
  from 1 2 3 4 show ?thesis by simp
qed

lemma cache_ok_migration [simp]: "cache_ok (migration_phase e db d)"
  by (simp add: cache_ok_def)



end
